theory Spec2Isabelle
  imports Complex_Main
begin

section \<open>Python strings\<close>

text \<open>
  A Python \<open>str\<close> is a sequence of Unicode code points, so a text is a list of code points
  (natural numbers) and \<open>length\<close> counts what Python's \<open>len\<close> counts. The keywords and
  messages of the sources that are not ASCII are written as their code points.
\<close>

type_synonym ustr = "nat list"

definition asc :: "string \<Rightarrow> ustr" where
  "asc s = map of_char s"

text \<open>\<open>s.startswith(p)\<close>\<close>

fun startswith :: "ustr \<Rightarrow> ustr \<Rightarrow> bool" where
  "startswith s [] = True"
| "startswith [] (p # ps) = False"
| "startswith (c # cs) (p # ps) = (c = p \<and> startswith cs ps)"

text \<open>\<open>sub in s\<close> for two strings: \<open>sub\<close> occurs in \<open>s\<close> as a contiguous substring.\<close>

fun contains :: "ustr \<Rightarrow> ustr \<Rightarrow> bool" where
  "contains sub [] = (sub = [])"
| "contains sub (c # cs) = (startswith (c # cs) sub \<or> contains sub cs)"

text \<open>
  \<open>s.split(sep)\<close> for a separator that is not empty (the sources split on the literals
  \<open>"-"\<close> and \<open>"```"\<close> only): the text is cut at the occurrences of \<open>sep\<close> found from left
  to right, without overlap. \<open>cur\<close> is the segment read so far.
\<close>

fun split_from :: "ustr \<Rightarrow> ustr \<Rightarrow> ustr \<Rightarrow> ustr list" where
  "split_from sep cur [] = [cur]"
| "split_from sep cur (c # cs) =
     (if startswith (c # cs) sep then cur # split_from sep [] (drop (length sep - 1) cs)
      else split_from sep (cur @ [c]) cs)"

definition split :: "ustr \<Rightarrow> ustr \<Rightarrow> ustr list" where
  "split sep s = split_from sep [] s"

text \<open>
  \<open>s.replace(old, new)\<close> for \<open>old\<close> not empty (the sources replace the literals
  \<open>"json"\<close>, \<open>" "\<close>, \<open>"/"\<close> and \<open>"\\"\<close> only): every occurrence found from left to right,
  without overlap, is replaced.
\<close>

fun replace :: "ustr \<Rightarrow> ustr \<Rightarrow> ustr \<Rightarrow> ustr" where
  "replace old new [] = []"
| "replace old new (c # cs) =
     (if startswith (c # cs) old then new @ replace old new (drop (length old - 1) cs)
      else c # replace old new cs)"

text \<open>
  \<open>s.strip()\<close> removes leading and trailing whitespace; \<open>is_space\<close> is CPython's test on a
  code point (the ASCII table and the Unicode whitespace property).
\<close>

definition is_space :: "nat \<Rightarrow> bool" where
  "is_space c \<longleftrightarrow>
     (9 \<le> c \<and> c \<le> 13) \<or> (28 \<le> c \<and> c \<le> 32) \<or> c = 133 \<or> c = 160 \<or> c = 5760 \<or>
     (8192 \<le> c \<and> c \<le> 8202) \<or> c = 8232 \<or> c = 8233 \<or> c = 8239 \<or> c = 8287 \<or> c = 12288"

definition strip :: "ustr \<Rightarrow> ustr" where
  "strip s = rev (dropWhile is_space (rev (dropWhile is_space s)))"

text \<open>
  \<open>s.lower()\<close>. An ASCII code point is lowered by itself. What a code point beyond ASCII
  becomes is given by the Unicode tables of the interpreter (one to three code points, and
  for U+03A3 it depends on the neighbours), so it is the parameter \<open>ulower\<close>, which receives
  the whole text and the index.
\<close>

definition ascii_lower :: "nat \<Rightarrow> nat" where
  "ascii_lower c = (if 65 \<le> c \<and> c \<le> 90 then c + 32 else c)"

definition lower :: "(ustr \<Rightarrow> nat \<Rightarrow> ustr) \<Rightarrow> ustr \<Rightarrow> ustr" where
  "lower ulower s =
     concat (map (\<lambda>i. if s ! i < 128 then [ascii_lower (s ! i)] else ulower s i) [0..<length s])"

text \<open>
  \<open>s.isdigit()\<close>: the text is not empty and every code point is a digit. The ASCII digits
  are \<open>0\<close> to \<open>9\<close>; which code points beyond ASCII are digits is the interpreter's Unicode
  table, the parameter \<open>udigit\<close>.
\<close>

definition is_digit :: "(nat \<Rightarrow> bool) \<Rightarrow> nat \<Rightarrow> bool" where
  "is_digit udigit c = (if c < 128 then 48 \<le> c \<and> c \<le> 57 else udigit c)"

definition isdigit :: "(nat \<Rightarrow> bool) \<Rightarrow> ustr \<Rightarrow> bool" where
  "isdigit udigit s = (s \<noteq> [] \<and> list_all (is_digit udigit) s)"

section \<open>Python values\<close>

text \<open>
  The values that \<open>json.loads\<close> produces and that the stages hand to each other. A dict is
  an association list in insertion order, which is the order Python iterates it in. A float
  is carried as the real number it denotes.
\<close>

datatype pyval =
    PNone
  | PBool bool
  | PInt int
  | PFloat real
  | PStr ustr
  | PList "pyval list"
  | PDict "(ustr \<times> pyval) list"

text \<open>
  Exceptions as values. \<open>JSONDecodeError\<close> carries the decoder's diagnostic and \<open>External\<close>
  the text of an exception raised by an external collaborator (the completion function, the
  bibliographic API, the file system); the text \<open>str(e)\<close> of an error raised by the
  interpreter itself is the interpreter's, the parameter \<open>itext\<close>.
\<close>

datatype exn =
    KeyError pyval
  | TypeError
  | AttributeError
  | IndexError
  | UnboundLocalError
  | JSONDecodeError ustr
  | External ustr

definition str_exn :: "(exn \<Rightarrow> ustr) \<Rightarrow> exn \<Rightarrow> ustr" where
  "str_exn itext e = (case e of JSONDecodeError m \<Rightarrow> m | External m \<Rightarrow> m | _ \<Rightarrow> itext e)"

text \<open>\<open>str(n)\<close> for a number that is not negative: its decimal digits.\<close>

fun str_nat :: "nat \<Rightarrow> ustr" where
  "str_nat n = (if n < 10 then [48 + n] else str_nat (n div 10) @ [48 + n mod 10])"

declare str_nat.simps [simp del]

text \<open>Truth value of a Python object, as \<open>not x\<close> and \<open>if x\<close> read it.\<close>

fun truthy :: "pyval \<Rightarrow> bool" where
  "truthy PNone = False"
| "truthy (PBool b) = b"
| "truthy (PInt i) = (i \<noteq> 0)"
| "truthy (PFloat r) = (r \<noteq> 0)"
| "truthy (PStr s) = (s \<noteq> [])"
| "truthy (PList xs) = (xs \<noteq> [])"
| "truthy (PDict kvs) = (kvs \<noteq> [])"

section \<open>Statistical stage: the publish year (src/tools/data\_process\_tool.py)\<close>

definition unknown :: ustr where
  "unknown = [26410, 30693]"

text \<open>
  The body of the \<open>try\<close> in \<open>_parse_publish_year\<close>. On a value that is not a string,
  \<open>"-" in date_str\<close> raises TypeError (None, bool, int, float), or it is evaluated on the
  container and the method call that follows (\<open>split\<close> or \<open>isdigit\<close>) raises
  AttributeError (list, dict).
\<close>

fun publish_year_body :: "(nat \<Rightarrow> bool) \<Rightarrow> pyval \<Rightarrow> exn + ustr" where
  "publish_year_body udigit (PStr s) =
     (if contains (asc ''-'') s then Inr (hd (split (asc ''-'') s))
      else if isdigit udigit s \<and> length s = 4 then Inr s
      else Inr unknown)"
| "publish_year_body udigit (PList xs) = Inl AttributeError"
| "publish_year_body udigit (PDict kvs) = Inl AttributeError"
| "publish_year_body udigit v = Inl TypeError"

definition parse_publish_year :: "(nat \<Rightarrow> bool) \<Rightarrow> pyval \<Rightarrow> ustr" where
  "parse_publish_year udigit date_str =
     (if \<not> truthy date_str \<or> date_str = PStr unknown then unknown
      else case publish_year_body udigit date_str of
             Inr y \<Rightarrow> y
           | Inl e \<Rightarrow> unknown)"

text \<open>The derivation as the specification words it, for a date that is a string or None.\<close>

definition publish_year_spec :: "(nat \<Rightarrow> bool) \<Rightarrow> ustr option \<Rightarrow> ustr" where
  "publish_year_spec udigit d =
     (case d of
        None \<Rightarrow> unknown
      | Some s \<Rightarrow>
          if 45 \<in> set s then takeWhile (\<lambda>c. c \<noteq> 45) s
          else if length s = 4 \<and> (\<forall>c \<in> set s. is_digit udigit c) then s
          else unknown)"

definition of_date :: "ustr option \<Rightarrow> pyval" where
  "of_date d = (case d of None \<Rightarrow> PNone | Some s \<Rightarrow> PStr s)"

section \<open>Literature stage: the method classification (src/agents/literature\_agent.py)\<close>

definition rct_triggers :: "ustr list" where
  "rct_triggers = [asc ''rct'', asc ''randomized controlled trial'',
                   [38543, 26426, 23545, 29031, 35797, 39564]]"

definition cohort_triggers :: "ustr list" where
  "cohort_triggers = [asc ''cohort'', [38431, 21015], [21069, 30651, 24615],
                      [22238, 39038, 24615, 38431, 21015]]"

definition case_control_triggers :: "ustr list" where
  "case_control_triggers = [asc ''case-control'', [30149, 20363, 23545, 29031]]"

definition cross_sectional_triggers :: "ustr list" where
  "cross_sectional_triggers = [asc ''cross-sectional'', [27178, 26029, 38754],
                               [29616, 20917, 35843, 26597]]"

definition case_report_triggers :: "ustr list" where
  "case_report_triggers = [asc ''case report'', [30149, 20363, 25253, 21578],
                           [20010, 26696, 25253, 21578]]"

definition cat_rct :: ustr where
  "cat_rct = asc ''RCT'' @ [30740, 31350]"

definition cat_cohort :: ustr where
  "cat_cohort = [38431, 21015, 30740, 31350]"

definition cat_case_control :: ustr where
  "cat_case_control = [30149, 20363, 23545, 29031, 30740, 31350]"

definition cat_cross_sectional :: ustr where
  "cat_cross_sectional = [27178, 26029, 38754, 30740, 31350]"

definition cat_case_report :: ustr where
  "cat_case_report = [30149, 20363, 25253, 21578]"

definition cat_other :: ustr where
  "cat_other = [20854, 20182, 30740, 31350]"

text \<open>\<open>any(keyword in text for keyword in keywords)\<close>\<close>

definition any_in :: "ustr list \<Rightarrow> ustr \<Rightarrow> bool" where
  "any_in keywords text = list_ex (\<lambda>keyword. contains keyword text) keywords"

definition classify_research_method :: "(ustr \<Rightarrow> nat \<Rightarrow> ustr) \<Rightarrow> ustr \<Rightarrow> ustr" where
  "classify_research_method ulower method_text =
     (let method_text_lower = lower ulower method_text in
      if any_in rct_triggers method_text_lower then cat_rct
      else if any_in cohort_triggers method_text_lower then cat_cohort
      else if any_in case_control_triggers method_text_lower then cat_case_control
      else if any_in cross_sectional_triggers method_text_lower then cat_cross_sectional
      else if any_in case_report_triggers method_text_lower then cat_case_report
      else cat_other)"

text \<open>
  The rule as the specification words it: a priority-ordered table of triggers, the first
  category with a trigger in the lowercased text wins, and \<open>other\<close> when none has.
\<close>

definition priority_table :: "(ustr list \<times> ustr) list" where
  "priority_table =
     [(rct_triggers, cat_rct), (cohort_triggers, cat_cohort),
      (case_control_triggers, cat_case_control),
      (cross_sectional_triggers, cat_cross_sectional),
      (case_report_triggers, cat_case_report)]"

definition classify_by_priority :: "(ustr \<Rightarrow> nat \<Rightarrow> ustr) \<Rightarrow> ustr \<Rightarrow> ustr" where
  "classify_by_priority ulower text =
     (case find (\<lambda>(triggers, cat). \<exists>t \<in> set triggers. contains t (lower ulower text))
             priority_table of
        Some (triggers, cat) \<Rightarrow> cat
      | None \<Rightarrow> cat_other)"

definition known_triggers :: "ustr list" where
  "known_triggers = rct_triggers @ cohort_triggers @ case_control_triggers @
                    cross_sectional_triggers @ case_report_triggers"

section \<open>Fenced completions (src/agents/literature\_agent.py, data\_agent.py, report\_agent.py)\<close>

definition fence :: ustr where
  "fence = asc ''```''"

text \<open>
  The cleaning that every stage applies to a text before \<open>json.loads\<close>:
  \<^verbatim>\<open>t = raw.strip()\<close> and, when \<open>t\<close> starts with the fence,
  \<^verbatim>\<open>t = t.split("```")[1].replace("json", "").strip()\<close>.
  Subscript 1 of a list with fewer than two segments raises IndexError.
\<close>

definition clean_fenced :: "ustr \<Rightarrow> exn + ustr" where
  "clean_fenced raw =
     (let t = strip raw in
      if startswith t fence then
        (case split fence t of
           a # b # rest \<Rightarrow> Inr (strip (replace (asc ''json'') [] b))
         | _ \<Rightarrow> Inl IndexError)
      else Inr t)"

text \<open>A text wrapped in a fence, with the language tag \<open>tag\<close> (empty or \<open>json\<close>).\<close>

definition fenced :: "ustr \<Rightarrow> ustr \<Rightarrow> ustr" where
  "fenced tag x = fence @ tag @ [10] @ x @ [10] @ fence"

definition is_json_error :: "exn \<Rightarrow> bool" where
  "is_json_error e = (case e of JSONDecodeError m \<Rightarrow> True | _ \<Rightarrow> False)"

text \<open>
  \<open>LiteratureAgent.run\<close>. \<open>executor\<close> is the completion function with its tool (it gives the
  output text or raises) and \<open>loads\<close> is \<open>json.loads\<close>; both are external. The handler of
  JSONDecodeError reads \<open>result\<close>: when the executor itself raised that error, \<open>result\<close> is
  not bound and the handler raises.
\<close>

definition literature_prompt :: "ustr \<Rightarrow> ustr" where
  "literature_prompt keywords =
     [26816, 32034, 20851, 38190, 35789, 20026, 65306] @ keywords @
     [65292, 20005, 26684, 25353, 29031, 35201, 27714, 36820, 22238, 32467, 26500, 21270,
      74, 83, 79, 78, 32467, 26524]"

definition literature_error :: "ustr \<Rightarrow> pyval" where
  "literature_error msg =
     PDict [(asc ''status'', PStr (asc ''error'')), (asc ''message'', PStr msg),
            (asc ''data'', PList [])]"

definition agent_failed :: "(exn \<Rightarrow> ustr) \<Rightarrow> exn \<Rightarrow> pyval" where
  "agent_failed itext e =
     literature_error
       ([65, 103, 101, 110, 116, 25191, 34892, 22833, 36133, 65306] @ str_exn itext e)"

definition parse_failed :: "(exn \<Rightarrow> ustr) \<Rightarrow> exn \<Rightarrow> ustr \<Rightarrow> pyval" where
  "parse_failed itext e output =
     literature_error
       ([32467, 26524, 35299, 26512, 22833, 36133, 65306] @ str_exn itext e @
        [65292, 21407, 22987, 36755, 20986, 65306] @ output)"

definition literature_run ::
  "(exn \<Rightarrow> ustr) \<Rightarrow> (ustr \<Rightarrow> exn + ustr) \<Rightarrow> (ustr \<Rightarrow> exn + pyval) \<Rightarrow> ustr
     \<Rightarrow> exn + pyval" where
  "literature_run itext executor loads keywords =
     (case executor (literature_prompt keywords) of
        Inl e \<Rightarrow> if is_json_error e then Inl UnboundLocalError else Inr (agent_failed itext e)
      | Inr output \<Rightarrow>
          (case clean_fenced output of
             Inl e \<Rightarrow> Inr (agent_failed itext e)
           | Inr output_text \<Rightarrow>
               (case loads output_text of
                  Inr structured_result \<Rightarrow> Inr structured_result
                | Inl e \<Rightarrow>
                    if is_json_error e then Inr (parse_failed itext e output)
                    else Inr (agent_failed itext e))))"

text \<open>
  \<open>DataAgent.run\<close>. A dict is serialised with \<open>json.dumps\<close> (the parameter \<open>dumps\<close>); any
  other input is taken for a string, cleaned and validated with \<open>json.loads\<close>
  (\<open>strip\<close> on a value that is not a string raises AttributeError).
\<close>

definition data_prompt :: "ustr \<Rightarrow> ustr" where
  "data_prompt input_str =
     [22788, 29702, 20197, 19979, 35770, 25991, 25968, 25454, 65306] @ input_str @
     [65292, 20998, 26512, 31867, 22411, 20026, 97, 108, 108, 65292, 29983, 25104, 23436,
      25972, 30340, 32479, 35745, 32467, 26524, 21644, 21487, 35270, 21270, 22270, 34920]"

definition data_error :: "ustr \<Rightarrow> pyval" where
  "data_error msg =
     PDict [(asc ''status'', PStr (asc ''error'')), (asc ''message'', PStr msg),
            (asc ''statistic'', PDict []), (asc ''plot_paths'', PList [])]"

definition data_failed :: "(exn \<Rightarrow> ustr) \<Rightarrow> exn \<Rightarrow> pyval" where
  "data_failed itext e =
     (if is_json_error e then
        data_error ([36755, 20837, 25968, 25454, 26684, 24335, 38169, 35823, 65288, 38750,
                     26377, 25928, 74, 83, 79, 78, 65289, 65306] @ str_exn itext e)
      else
        data_error ([25968, 25454, 65, 103, 101, 110, 116, 25191, 34892, 22833, 36133, 65306]
                    @ str_exn itext e))"

definition data_input_str ::
  "(ustr \<Rightarrow> exn + pyval) \<Rightarrow> (pyval \<Rightarrow> ustr) \<Rightarrow> pyval \<Rightarrow> exn + ustr" where
  "data_input_str loads dumps papers_data =
     (case papers_data of
        PDict kvs \<Rightarrow> Inr (dumps papers_data)
      | PStr s \<Rightarrow>
          (case clean_fenced s of
             Inl e \<Rightarrow> Inl e
           | Inr input_str \<Rightarrow>
               (case loads input_str of Inl e \<Rightarrow> Inl e | Inr v \<Rightarrow> Inr input_str))
      | _ \<Rightarrow> Inl AttributeError)"

definition data_run ::
  "(exn \<Rightarrow> ustr) \<Rightarrow> (ustr \<Rightarrow> exn + ustr) \<Rightarrow> (ustr \<Rightarrow> exn + pyval) \<Rightarrow> (pyval \<Rightarrow> ustr)
     \<Rightarrow> pyval \<Rightarrow> pyval" where
  "data_run itext executor loads dumps papers_data =
     (case data_input_str loads dumps papers_data of
        Inl e \<Rightarrow> data_failed itext e
      | Inr input_str \<Rightarrow>
          (case executor (data_prompt input_str) of
             Inl e \<Rightarrow> data_failed itext e
           | Inr output \<Rightarrow>
               (case clean_fenced output of
                  Inl e \<Rightarrow> data_failed itext e
                | Inr output_text \<Rightarrow>
                    (case loads output_text of
                       Inr structured_result \<Rightarrow> structured_result
                     | Inl e \<Rightarrow> data_failed itext e))))"

text \<open>
  \<open>ReportAgent._parse_input_data\<close>. A dict is returned as it is. Otherwise the value is
  cleaned and decoded; a JSONDecodeError or a TypeError gives the empty dict, and any
  other exception (AttributeError from \<open>strip\<close> on a value that is not a string) leaves
  the function.
\<close>

definition parse_input_data :: "(ustr \<Rightarrow> exn + pyval) \<Rightarrow> pyval \<Rightarrow> exn + pyval" where
  "parse_input_data loads data =
     (let handler = (\<lambda>e. if is_json_error e \<or> e = TypeError then Inr (PDict []) else Inl e) in
      case data of
        PDict kvs \<Rightarrow> Inr data
      | PStr s \<Rightarrow>
          (case clean_fenced s of
             Inl e \<Rightarrow> handler e
           | Inr clean_data \<Rightarrow>
               (case loads clean_data of Inl e \<Rightarrow> handler e | Inr v \<Rightarrow> Inr v))
      | _ \<Rightarrow> handler AttributeError)"

section \<open>The bibliographic tool (src/tools/pubmed\_tool.py)\<close>

text \<open>The placeholder record number \<open>i\<close> of the \<open>except\<close> branch of \<open>PubMedSearchTool._run\<close>.\<close>

definition placeholder_paper :: "nat \<Rightarrow> pyval" where
  "placeholder_paper i =
     PDict [(asc ''title'', PStr ([27169, 25311, 35770, 25991] @ str_nat i)),
            (asc ''publish_date'', PStr (asc ''2024-01-01'')),
            (asc ''journal_name'', PStr [27169, 25311, 26399, 21002]),
            (asc ''methods_original'',
               PStr ([38543, 26426, 23545, 29031, 35797, 39564, 65288] @ asc ''RCT'' @
                     [65289, 30740, 31350, 65292, 36873, 21462] @ asc ''100'' @
                     [20363, 24739, 32773, 20998, 20026, 23454, 39564, 32452, 21644, 23545,
                      29031, 32452])),
            (asc ''conclusion'',
               PStr [27169, 25311, 32467, 35770, 65306, 35813, 27835, 30103, 26041, 26696,
                     26377, 25928]),
            (asc ''authors'', PList [PStr (asc ''Author A'')])]"

definition placeholder_data :: "pyval list" where
  "placeholder_data = map placeholder_paper [0..<10]"

text \<open>
  \<open>PubMedSearchTool._run\<close>. \<open>search_fetch\<close> is the body of the \<open>try\<close>: the search and the
  fetch of the external API and the extraction of the records, which gives the list of
  papers or raises.
\<close>

definition pubmed_run :: "(exn \<Rightarrow> ustr) \<Rightarrow> (ustr \<Rightarrow> exn + pyval list) \<Rightarrow> ustr \<Rightarrow> pyval" where
  "pubmed_run itext search_fetch keywords =
     (case search_fetch keywords of
        Inr papers \<Rightarrow>
          PDict [(asc ''status'', PStr (asc ''success'')),
                 (asc ''message'',
                    PStr ([25104, 21151, 26816, 32034, 21040] @ str_nat (length papers) @
                          [31687, 35770, 25991])),
                 (asc ''data'', PList papers)]
      | Inl e \<Rightarrow>
          PDict [(asc ''status'', PStr (asc ''error'')),
                 (asc ''message'',
                    PStr ([80, 117, 98, 77, 101, 100, 26816, 32034, 22833, 36133, 65306] @
                          str_exn itext e @
                          [65292, 20351, 29992, 27169, 25311, 25968, 25454])),
                 (asc ''data'', PList placeholder_data)])"

section \<open>The report file name (src/agents/report\_agent.py)\<close>





section \<open>Python operations on values\<close>

text \<open>The number a value stands for in arithmetic comparisons (\<open>bool\<close> is a subclass of \<open>int\<close>).\<close>

fun num_of :: "pyval \<Rightarrow> real option" where
  "num_of (PBool b) = Some (if b then 1 else 0)"
| "num_of (PInt i) = Some (of_int i)"
| "num_of (PFloat r) = Some r"
| "num_of v = None"

text \<open>
  \<open>a == b\<close>: numbers by value, strings and lists by content, dicts by their items whatever
  the order (the keys of a dict are distinct).
\<close>

function (sequential) py_eq :: "pyval \<Rightarrow> pyval \<Rightarrow> bool" where
  "py_eq (PList xs) (PList ys) = list_all2 py_eq xs ys"
| "py_eq (PDict a) (PDict b) =
     (length a = length b \<and>
      (\<forall>(k, v) \<in> set a. case map_of b k of None \<Rightarrow> False | Some w \<Rightarrow> py_eq v w))"
| "py_eq (PStr s) (PStr t) = (s = t)"
| "py_eq PNone PNone = True"
| "py_eq a b = (case (num_of a, num_of b) of (Some x, Some y) \<Rightarrow> x = y | _ \<Rightarrow> False)"
  by pat_completeness auto
termination
proof (relation "measure (\<lambda>(a, b). size a)", goal_cases)
  case 1
  show ?case by simp
next
  case (2 xs ys x y)
  then show ?case by (simp add: less_Suc_eq_le size_list_estimation')
next
  case (3 a b kv k v w)
  have "(k, v) \<in> set kvs \<Longrightarrow> size v < Suc (size_list (size_prod (\<lambda>x. 0) size) kvs)" for kvs
    by (induction kvs) auto
  with 3 show ?case by simp
qed

text \<open>\<open>s > t\<close> on strings: the lexicographic order of the code points.\<close>

fun str_gt :: "ustr \<Rightarrow> ustr \<Rightarrow> bool" where
  "str_gt [] t = False"
| "str_gt (c # cs) [] = True"
| "str_gt (c # cs) (d # ds) = (c > d \<or> (c = d \<and> str_gt cs ds))"

text \<open>
  \<open>a > b\<close>: numbers by value, strings and lists lexicographically; every other pair of
  types raises TypeError.
\<close>

fun py_gt :: "pyval \<Rightarrow> pyval \<Rightarrow> exn + bool" where
  "py_gt (PStr s) (PStr t) = Inr (str_gt s t)"
| "py_gt (PList []) (PList ys) = Inr False"
| "py_gt (PList (x # xs)) (PList []) = Inr True"
| "py_gt (PList (x # xs)) (PList (y # ys)) =
     (if py_eq x y then py_gt (PList xs) (PList ys) else py_gt x y)"
| "py_gt a b =
     (case (num_of a, num_of b) of (Some x, Some y) \<Rightarrow> Inr (x > y) | _ \<Rightarrow> Inl TypeError)"

text \<open>\<open>xs[i]\<close> on a list or a string; the index \<open>-1\<close> is the last position.\<close>

definition index_seq :: "'a list \<Rightarrow> int \<Rightarrow> exn + 'a" where
  "index_seq xs i =
     (if 0 \<le> i \<and> i < int (length xs) then Inr (xs ! nat i)
      else if i < 0 \<and> - int (length xs) \<le> i then Inr (xs ! nat (int (length xs) + i))
      else Inl IndexError)"

text \<open>
  \<open>v[k]\<close>. A list or a dict is not hashable, so it is a TypeError as the key of a dict; any
  other key that is not a string is never in a dict whose keys are strings.
\<close>

fun getitem :: "pyval \<Rightarrow> pyval \<Rightarrow> exn + pyval" where
  "getitem (PDict kvs) (PStr k) =
     (case map_of kvs k of Some v \<Rightarrow> Inr v | None \<Rightarrow> Inl (KeyError (PStr k)))"
| "getitem (PDict kvs) (PList xs) = Inl TypeError"
| "getitem (PDict kvs) (PDict d) = Inl TypeError"
| "getitem (PDict kvs) k = Inl (KeyError k)"
| "getitem (PList xs) (PInt i) = index_seq xs i"
| "getitem (PList xs) (PBool b) = index_seq xs (if b then 1 else 0)"
| "getitem (PList xs) k = Inl TypeError"
| "getitem (PStr s) (PInt i) = map_sum id (\<lambda>c. PStr [c]) (index_seq s i)"
| "getitem (PStr s) (PBool b) = map_sum id (\<lambda>c. PStr [c]) (index_seq s (if b then 1 else 0))"
| "getitem (PStr s) k = Inl TypeError"
| "getitem v k = Inl TypeError"

text \<open>\<open>v["k"]\<close> for a key written in the source.\<close>

definition subscript :: "pyval \<Rightarrow> string \<Rightarrow> exn + pyval" where
  "subscript v k = getitem v (PStr (asc k))"

text \<open>\<open>v.get("k", dflt)\<close>: only a dict has the method.\<close>

definition dict_get :: "pyval \<Rightarrow> string \<Rightarrow> pyval \<Rightarrow> exn + pyval" where
  "dict_get v k dflt =
     (case v of
        PDict kvs \<Rightarrow> Inr (case map_of kvs (asc k) of Some x \<Rightarrow> x | None \<Rightarrow> dflt)
      | _ \<Rightarrow> Inl AttributeError)"

text \<open>\<open>len(v)\<close>\<close>

fun py_len :: "pyval \<Rightarrow> exn + nat" where
  "py_len (PStr s) = Inr (length s)"
| "py_len (PList xs) = Inr (length xs)"
| "py_len (PDict kvs) = Inr (length kvs)"
| "py_len v = Inl TypeError"

text \<open>The items that \<open>for item in v\<close> goes through: the keys of a dict, in insertion order.\<close>

fun py_iter :: "pyval \<Rightarrow> exn + pyval list" where
  "py_iter (PDict kvs) = Inr (map (\<lambda>(k, v). PStr k) kvs)"
| "py_iter (PList xs) = Inr xs"
| "py_iter (PStr s) = Inr (map (\<lambda>c. PStr [c]) s)"
| "py_iter v = Inl TypeError"

text \<open>\<open>a in b\<close>\<close>

fun py_in :: "pyval \<Rightarrow> pyval \<Rightarrow> exn + bool" where
  "py_in (PStr a) (PStr s) = Inr (contains a s)"
| "py_in a (PStr s) = Inl TypeError"
| "py_in a (PList xs) = Inr (list_ex (py_eq a) xs)"
| "py_in (PStr k) (PDict kvs) = Inr (k \<in> set (map fst kvs))"
| "py_in (PList xs) (PDict kvs) = Inl TypeError"
| "py_in (PDict d) (PDict kvs) = Inl TypeError"
| "py_in a (PDict kvs) = Inr False"
| "py_in a v = Inl TypeError"

text \<open>
  \<open>max(iterable, key=key, default=dflt)\<close>: the first item is the maximum so far, and a
  later item replaces it only when its key is greater (\<open>>\<close>), so of several items with the
  greatest key the first one met is returned.
\<close>

fun max_loop :: "(pyval \<Rightarrow> exn + pyval) \<Rightarrow> pyval \<Rightarrow> pyval \<Rightarrow> pyval list \<Rightarrow> exn + pyval" where
  "max_loop key maxitem maxval [] = Inr maxitem"
| "max_loop key maxitem maxval (item # items) =
     (case key item of
        Inl e \<Rightarrow> Inl e
      | Inr val \<Rightarrow>
          (case py_gt val maxval of
             Inl e \<Rightarrow> Inl e
           | Inr gt \<Rightarrow>
               if gt then max_loop key item val items
               else max_loop key maxitem maxval items))"

definition py_max :: "pyval \<Rightarrow> (pyval \<Rightarrow> exn + pyval) \<Rightarrow> pyval \<Rightarrow> exn + pyval" where
  "py_max iterable key dflt =
     (case py_iter iterable of
        Inl e \<Rightarrow> Inl e
      | Inr [] \<Rightarrow> Inr dflt
      | Inr (item # items) \<Rightarrow>
          (case key item of Inl e \<Rightarrow> Inl e | Inr val \<Rightarrow> max_loop key item val items))"

text \<open>Sequencing of computations that may raise.\<close>

definition bind_exn :: "exn + 'a \<Rightarrow> ('a \<Rightarrow> exn + 'b) \<Rightarrow> exn + 'b" where
  "bind_exn m f = (case m of Inl e \<Rightarrow> Inl e | Inr x \<Rightarrow> f x)"

section \<open>The orchestrator (src/chains/router\_chain.py)\<close>

datatype stage_id = LiteratureStage | DataStage | ReportStage

record summary =
  s_keywords :: ustr
  s_total_papers :: pyval
  main_research_method :: pyval
  s_report_path :: pyval
  s_plot_paths :: pyval

record pipeline_result =
  chain_status :: ustr
  stage :: ustr
  message :: pyval
  results :: "(ustr \<times> pyval) list"
  summary :: "summary option"

definition failed_at :: "string \<Rightarrow> pyval \<Rightarrow> (ustr \<times> pyval) list \<Rightarrow> pipeline_result" where
  "failed_at name msg res =
     \<lparr>chain_status = asc ''failed'', stage = asc name, message = msg, results = res,
      summary = None\<rparr>"

text \<open>The \<open>except\<close> branch of \<open>run\<close>.\<close>

definition full_chain_failed :: "(exn \<Rightarrow> ustr) \<Rightarrow> exn \<Rightarrow> pipeline_result" where
  "full_chain_failed itext e =
     failed_at ''full_chain''
       (PStr ([65, 103, 101, 110, 116, 38142, 25191, 34892, 22833, 36133, 65306] @ str_exn itext e))
       []"

text \<open>
  The key function of the \<open>max\<close> in the summary:
  \<^verbatim>\<open>lambda k: data_result["statistic"]["methods_classified_distribution"][k]\<close>
\<close>

definition method_count :: "pyval \<Rightarrow> pyval \<Rightarrow> exn + pyval" where
  "method_count data_result k =
     bind_exn (subscript data_result ''statistic'') (\<lambda>statistic.
     bind_exn (subscript statistic ''methods_classified_distribution'') (\<lambda>dist.
     getitem dist k))"

text \<open>
  \<open>main_research_method\<close> of the summary: the \<open>max\<close> over
  \<^verbatim>\<open>data_result["statistic"].get("methods_classified_distribution", {})\<close>
  with the default \<open>unknown\<close>.
\<close>

definition dominant_method :: "pyval \<Rightarrow> exn + pyval" where
  "dominant_method data_result =
     bind_exn (subscript data_result ''statistic'') (\<lambda>statistic.
     bind_exn (dict_get statistic ''methods_classified_distribution'' (PDict [])) (\<lambda>dist.
     py_max dist (method_count data_result) (PStr unknown)))"

text \<open>
  The result that \<open>run\<close> builds after the three stages, in the order in which the source
  evaluates it; the \<open>print\<close> that follows takes \<open>len\<close> of the plot paths.
\<close>

definition final_result :: "ustr \<Rightarrow> pyval \<Rightarrow> pyval \<Rightarrow> pyval \<Rightarrow> exn + pipeline_result" where
  "final_result keywords lit_result data_result report_result =
     bind_exn (subscript report_result ''status'') (\<lambda>report_status.
     bind_exn (subscript data_result ''statistic'') (\<lambda>statistic.
     bind_exn (dict_get statistic ''total_papers'' (PInt 0)) (\<lambda>total.
     bind_exn (dominant_method data_result) (\<lambda>main.
     bind_exn (subscript report_result ''report_path'') (\<lambda>path.
     bind_exn (subscript data_result ''plot_paths'') (\<lambda>plots.
     bind_exn (py_len plots) (\<lambda>n.
     Inr \<lparr>chain_status =
            (if py_eq report_status (PStr (asc ''success'')) then asc ''success''
             else asc ''failed''),
          stage =
            (if \<not> py_eq report_status (PStr (asc ''success'')) then asc ''report_agent''
             else asc ''completed''),
          message = PStr [23436, 25972, 65, 103, 101, 110, 116, 38142, 25191, 34892, 23436,
                          25104, 65292, 25253, 21578, 24050, 29983, 25104],
          results = [(asc ''literature_result'', lit_result), (asc ''data_result'', data_result),
                     (asc ''report_result'', report_result)],
          summary = Some \<lparr>s_keywords = keywords, s_total_papers = total,
                           main_research_method = main, s_report_path = path,
                           s_plot_paths = plots\<rparr>\<rparr>)))))))"

text \<open>
  \<open>ResearchRouterChain.run\<close>. The three stages are parameters; each returns its envelope or
  raises. The result comes with the list of the stages that were invoked, in order. Every
  exception in the body gives the \<open>full_chain\<close> result.
\<close>

definition after_data ::
  "(ustr \<Rightarrow> pyval \<Rightarrow> pyval \<Rightarrow> exn + pyval) \<Rightarrow> ustr \<Rightarrow> pyval \<Rightarrow> pyval
     \<Rightarrow> (exn + pipeline_result) \<times> stage_id list" where
  "after_data report_agent keywords lit_result data_result =
     (case subscript data_result ''status'' of
        Inl e \<Rightarrow> (Inl e, [LiteratureStage, DataStage])
      | Inr data_status \<Rightarrow>
          if \<not> py_eq data_status (PStr (asc ''success'')) then
            (bind_exn (subscript data_result ''message'') (\<lambda>msg.
               Inr (failed_at ''data_agent'' msg
                      [(asc ''literature_result'', lit_result),
                       (asc ''data_result'', data_result)])),
             [LiteratureStage, DataStage])
          else
            (bind_exn (report_agent keywords lit_result data_result)
               (final_result keywords lit_result data_result),
             [LiteratureStage, DataStage, ReportStage]))"

definition after_literature ::
  "(pyval \<Rightarrow> exn + pyval) \<Rightarrow> (ustr \<Rightarrow> pyval \<Rightarrow> pyval \<Rightarrow> exn + pyval) \<Rightarrow> ustr \<Rightarrow> pyval
     \<Rightarrow> (exn + pipeline_result) \<times> stage_id list" where
  "after_literature data_agent report_agent keywords lit_result =
     (case subscript lit_result ''status'' of
        Inl e \<Rightarrow> (Inl e, [LiteratureStage])
      | Inr lit_status \<Rightarrow>
          if \<not> (py_eq lit_status (PStr (asc ''success'')) \<or>
                py_eq lit_status (PStr (asc ''warning''))) then
            (bind_exn (subscript lit_result ''message'') (\<lambda>msg.
               Inr (failed_at ''literature_agent'' msg [])),
             [LiteratureStage])
          else
            (case data_agent lit_result of
               Inl e \<Rightarrow> (Inl e, [LiteratureStage, DataStage])
             | Inr data_result \<Rightarrow> after_data report_agent keywords lit_result data_result))"

definition run ::
  "(exn \<Rightarrow> ustr) \<Rightarrow> (ustr \<Rightarrow> exn + pyval) \<Rightarrow> (pyval \<Rightarrow> exn + pyval)
     \<Rightarrow> (ustr \<Rightarrow> pyval \<Rightarrow> pyval \<Rightarrow> exn + pyval) \<Rightarrow> ustr \<Rightarrow> pipeline_result \<times> stage_id list" where
  "run itext literature_agent data_agent report_agent keywords =
     (let (outcome, invoked) =
            (case literature_agent keywords of
               Inl e \<Rightarrow> (Inl e, [LiteratureStage])
             | Inr lit_result \<Rightarrow> after_literature data_agent report_agent keywords lit_result)
      in (case outcome of Inl e \<Rightarrow> full_chain_failed itext e | Inr r \<Rightarrow> r, invoked))"

text \<open>
  The dominant method as the specification words it, on a distribution from categories to
  counts in iteration order: the first key whose count no other count exceeds, and
  \<open>unknown\<close> for the empty distribution. \<open>counts_dict\<close> is the distribution as the Python
  dict it is.
\<close>

definition dominant_spec :: "(ustr \<times> int) list \<Rightarrow> ustr" where
  "dominant_spec d =
     (case filter (\<lambda>(k, c). \<forall>(k', c') \<in> set d. c' \<le> c) d of
        [] \<Rightarrow> unknown
      | (k, c) # rest \<Rightarrow> k)"

definition counts_dict :: "(ustr \<times> int) list \<Rightarrow> pyval" where
  "counts_dict d = PDict (map (\<lambda>(k, c). (k, PInt c)) d)"

section \<open>The request endpoint (app.py)\<close>

text \<open>
  The response of \<open>research\<close>: the short failure dict (its \<open>chain_status\<close> is always
  \<open>failed\<close>) with its stage and message, or the result of the chain.
\<close>

datatype response = Failure ustr ustr | ChainResult pipeline_result

record config =
  model_name :: pyval
  api_key :: pyval
  base_url :: pyval
  max_papers :: pyval
  entrez_email :: pyval

text \<open>\<open>v.strip()\<close> on a value: only a string has the method.\<close>

definition py_strip :: "pyval \<Rightarrow> exn + ustr" where
  "py_strip v = (case v of PStr s \<Rightarrow> Inr (strip s) | _ \<Rightarrow> Inl AttributeError)"

text \<open>\<open>isinstance(v, int)\<close>, and the integer of such a value.\<close>

definition is_int :: "pyval \<Rightarrow> bool" where
  "is_int v = (case v of PInt i \<Rightarrow> True | PBool b \<Rightarrow> True | _ \<Rightarrow> False)"

definition int_of :: "pyval \<Rightarrow> int" where
  "int_of v = (case v of PInt i \<Rightarrow> i | PBool b \<Rightarrow> (if b then 1 else 0) | _ \<Rightarrow> 0)"

text \<open>
  The checks of the parameters, in the order of the source: the message of the first check
  that fails, or None when all pass. \<open>max_papers\<close> is read with the default 10.
\<close>

definition check_params :: "ustr \<Rightarrow> pyval \<Rightarrow> pyval \<Rightarrow> pyval \<Rightarrow> exn + ustr option" where
  "check_params keywords llm_config agent_config pubmed_config =
     (if keywords = [] then
        Inr (Some [26816, 32034, 20851, 38190, 35789, 19981, 33021, 20026, 31354])
      else
     bind_exn (dict_get llm_config ''api_key'' PNone) (\<lambda>key.
     if \<not> truthy key then
       Inr (Some (asc ''LLM API Key'' @ [19981, 33021, 20026, 31354]))
     else
     bind_exn (dict_get llm_config ''base_url'' PNone) (\<lambda>url.
     if \<not> truthy url then
       Inr (Some (asc ''LLM Base URL'' @ [19981, 33021, 20026, 31354]))
     else
     bind_exn (dict_get llm_config ''model_name'' PNone) (\<lambda>model.
     if \<not> truthy model then
       Inr (Some [27169, 22411, 21517, 31216, 19981, 33021, 20026, 31354])
     else
     bind_exn (dict_get agent_config ''max_papers'' (PInt 10)) (\<lambda>max_papers.
     if \<not> is_int max_papers \<or> int_of max_papers < 1 then
       Inr (Some [26816, 32034, 25968, 37327, 24517, 39035, 26159, 22823, 20110, 48, 30340,
                  25972, 25968])
     else
     bind_exn (dict_get pubmed_config ''email'' PNone) (\<lambda>email.
     if \<not> truthy email then
       Inr (Some ([35831, 36755, 20837, 26377, 25928, 30340] @ asc ''PubMed'' @ [37038, 31665]))
     else
     bind_exn (subscript pubmed_config ''email'') (\<lambda>email'.
     bind_exn (py_in (PStr (asc ''@'')) email') (\<lambda>has_at.
     if \<not> has_at then
       Inr (Some ([35831, 36755, 20837, 26377, 25928, 30340] @ asc ''PubMed'' @ [37038, 31665]))
     else Inr None))))))))"

text \<open>The configuration of the chain: every entry is read with a subscript.\<close>

definition build_config :: "pyval \<Rightarrow> pyval \<Rightarrow> pyval \<Rightarrow> exn + config" where
  "build_config llm_config agent_config pubmed_config =
     bind_exn (subscript llm_config ''model_name'') (\<lambda>model.
     bind_exn (subscript llm_config ''api_key'') (\<lambda>key.
     bind_exn (subscript llm_config ''base_url'') (\<lambda>url.
     bind_exn (subscript agent_config ''max_papers'') (\<lambda>papers.
     bind_exn (subscript pubmed_config ''email'') (\<lambda>email.
     Inr \<lparr>model_name = model, api_key = key, base_url = url, max_papers = papers,
          entrez_email = email\<rparr>)))))"

text \<open>
  The body of the \<open>try\<close> of \<open>research\<close>, after the test of an empty request. \<open>chain\<close>
  builds the chain from the configuration and runs it on the keywords (the constructors of
  the stages may raise). The boolean tells whether the chain was invoked.
\<close>

definition checked_config :: "pyval \<Rightarrow> exn + (response + config \<times> ustr)" where
  "checked_config request_data =
     bind_exn (dict_get request_data ''keywords'' (PStr [])) (\<lambda>kw.
     bind_exn (py_strip kw) (\<lambda>keywords.
     bind_exn (dict_get request_data ''llm_config'' (PDict [])) (\<lambda>llm_config.
     bind_exn (dict_get request_data ''agent_config'' (PDict [])) (\<lambda>agent_config.
     bind_exn (dict_get request_data ''pubmed_config'' (PDict [])) (\<lambda>pubmed_config.
     bind_exn (check_params keywords llm_config agent_config pubmed_config) (\<lambda>failure.
       (case failure of
          Some msg \<Rightarrow> Inr (Inl (Failure (asc ''params'') msg))
        | None \<Rightarrow>
            bind_exn (build_config llm_config agent_config pubmed_config) (\<lambda>cfg.
              Inr (Inr (cfg, keywords))))))))))"

definition handle_request ::
  "(config \<Rightarrow> ustr \<Rightarrow> exn + pipeline_result) \<Rightarrow> pyval \<Rightarrow> (exn + response) \<times> bool" where
  "handle_request chain request_data =
     (case checked_config request_data of
        Inl e \<Rightarrow> (Inl e, False)
      | Inr (Inl rejected) \<Rightarrow> (Inr rejected, False)
      | Inr (Inr (cfg, keywords)) \<Rightarrow>
          (case chain cfg keywords of
             Inl e \<Rightarrow> (Inl e, True)
           | Inr chain_result \<Rightarrow> (Inr (ChainResult chain_result), True)))"

text \<open>
  \<open>research\<close>. \<open>request\<close> is what \<open>request.get_json()\<close> gives (it may raise). Every
  exception gives the failure of stage \<open>server\<close>.
\<close>

definition research ::
  "(exn \<Rightarrow> ustr) \<Rightarrow> (config \<Rightarrow> ustr \<Rightarrow> exn + pipeline_result) \<Rightarrow> exn + pyval
     \<Rightarrow> response \<times> bool" where
  "research itext chain request =
     (let server_failed = (\<lambda>e. Failure (asc ''server'')
            ([26381, 21153, 22120, 22788, 29702, 22833, 36133, 65306] @ str_exn itext e)) in
      case request of
        Inl e \<Rightarrow> (server_failed e, False)
      | Inr request_data \<Rightarrow>
          if \<not> truthy request_data then
            (Failure (asc ''request'')
               [35831, 27714, 21442, 25968, 20026, 31354, 65292, 35831, 26816, 26597, 36755,
                20837], False)
          else
            (case handle_request chain request_data of
               (Inl e, invoked) \<Rightarrow> (server_failed e, invoked)
             | (Inr r, invoked) \<Rightarrow> (r, invoked)))"

text \<open>A request of the examples: every parameter is valid and \<open>agent_config\<close> is empty.\<close>

definition request_without_max_papers :: pyval where
  "request_without_max_papers =
     PDict [(asc ''keywords'', PStr (asc ''diabetes'')),
            (asc ''llm_config'',
               PDict [(asc ''api_key'', PStr (asc ''sk-1'')),
                      (asc ''base_url'', PStr (asc ''https://llm.example/v1'')),
                      (asc ''model_name'', PStr (asc ''qwen''))]),
            (asc ''agent_config'', PDict []),
            (asc ''pubmed_config'', PDict [(asc ''email'', PStr (asc ''a@b.org''))])]"

section \<open>A sample environment\<close>

text \<open>
  The external collaborators on the inputs of the examples below: a completion function
  that returns the text \<open>out\<close> whatever the prompt, \<open>json.loads\<close> on three texts (two
  objects, and a text that is not JSON, with the diagnostic CPython gives for it),
  \<open>json.dumps\<close> on the empty dict, and an interpreter whose own error texts are left empty.
\<close>

definition completion_returns :: "ustr \<Rightarrow> ustr \<Rightarrow> exn + ustr" where
  "completion_returns out prompt = Inr out"

definition loads_sample :: "ustr \<Rightarrow> exn + pyval" where
  \<open>loads_sample t =
     (if t = asc ''{"tool": "json"}'' then Inr (PDict [(asc ''tool'', PStr (asc ''json''))])
      else if t = asc ''{"tool": ""}'' then Inr (PDict [(asc ''tool'', PStr [])])
      else Inl (JSONDecodeError (asc ''Expecting value: line 1 column 1 (char 0)'')))\<close>

definition dumps_sample :: "pyval \<Rightarrow> ustr" where
  "dumps_sample v = asc ''{}''"

definition itext_sample :: "exn \<Rightarrow> ustr" where
  "itext_sample e = []"

text \<open>
  Stages that return a given envelope whatever their input, and the envelopes of the
  examples: a successful literature envelope, a statistical envelope with status
  \<open>warning\<close>, and a successful report envelope.
\<close>

definition stage_returns :: "pyval \<Rightarrow> 'a \<Rightarrow> exn + pyval" where
  "stage_returns v x = Inr v"

definition report_returns :: "pyval \<Rightarrow> ustr \<Rightarrow> pyval \<Rightarrow> pyval \<Rightarrow> exn + pyval" where
  "report_returns v keywords lit_result data_result = Inr v"

definition lit_ok :: pyval where
  "lit_ok = PDict [(asc ''status'', PStr (asc ''success'')), (asc ''message'', PStr (asc ''ok'')),
                   (asc ''data'', PList [])]"

definition data_warning :: pyval where
  "data_warning =
     PDict [(asc ''status'', PStr (asc ''warning'')), (asc ''message'', PStr (asc ''partial'')),
            (asc ''statistic'', PDict []), (asc ''plot_paths'', PList [])]"

definition report_ok :: pyval where
  "report_ok =
     PDict [(asc ''status'', PStr (asc ''success'')), (asc ''message'', PStr (asc ''saved'')),
            (asc ''report_content'', PStr (asc ''# Report'')),
            (asc ''report_path'', PStr (asc ''./reports/r.md'')), (asc ''metadata'', PDict [])]"

definition data_ok :: pyval where
  "data_ok =
     PDict [(asc ''status'', PStr (asc ''success'')), (asc ''message'', PStr (asc ''done'')),
            (asc ''statistic'',
               PDict [(asc ''total_papers'', PInt 4),
                      (asc ''methods_classified_distribution'',
                         counts_dict [(cat_rct, 2), (cat_cohort, 2)])]),
            (asc ''plot_paths'', PList [])]"

section \<open>Properties of the string operations\<close>

lemma startswith_iff: "startswith s p \<longleftrightarrow> (\<exists>r. s = p @ r)"
  by (induction s p rule: startswith.induct) auto

lemma contains_iff: "contains sub s \<longleftrightarrow> (\<exists>p q. s = p @ sub @ q)"
proof (induction s)
  case Nil
  then show ?case by auto
next
  case (Cons c cs)
  show ?case
  proof
    assume "contains sub (c # cs)"
    then consider "startswith (c # cs) sub" | "contains sub cs" by auto
    then show "\<exists>p q. c # cs = p @ sub @ q"
    proof cases
      case 1
      then obtain r where "c # cs = sub @ r" by (auto simp: startswith_iff)
      then have "c # cs = [] @ sub @ r" by simp
      then show ?thesis by blast
    next
      case 2
      then obtain p q where "cs = p @ sub @ q" using Cons.IH by blast
      then have "c # cs = (c # p) @ sub @ q" by simp
      then show ?thesis by blast
    qed
  next
    assume "\<exists>p q. c # cs = p @ sub @ q"
    then obtain p q where pq: "c # cs = p @ sub @ q" by blast
    show "contains sub (c # cs)"
    proof (cases p)
      case Nil
      with pq have "startswith (c # cs) sub" by (auto simp: startswith_iff)
      then show ?thesis by simp
    next
      case (Cons a p')
      with pq have "cs = p' @ sub @ q" by simp
      then have "contains sub cs" using Cons.IH by blast
      then show ?thesis by simp
    qed
  qed
qed

lemma concat_map_single: "concat (map (\<lambda>c. [g c]) v) = map g v"
  by (induction v) auto

lemma ascii_lower_less: "ascii_lower c < 128 \<longleftrightarrow> c < 128"
  by (auto simp: ascii_lower_def)

lemma contains_single: "contains [d] s \<longleftrightarrow> d \<in> set s"
  by (induction s) auto

lemma hd_split_from_single:
  "hd (split_from [d] cur s) = cur @ takeWhile (\<lambda>c. c \<noteq> d) s"
  by (induction s arbitrary: cur) auto

lemma lower_ascii:
  assumes "\<forall>c \<in> set s. c < 128"
  shows "lower ulower s = map ascii_lower s"
proof -
  have "map (\<lambda>i. if s ! i < 128 then [ascii_lower (s ! i)] else ulower s i) [0..<length s]
        = map (\<lambda>c. [ascii_lower c]) s"
    using assms by (intro nth_equalityI) auto
  then show ?thesis by (simp add: lower_def concat_map_single)
qed

lemma upt_three:
  "[0..<length (p @ v @ q)] =
     [0..<length p] @ [length p..<length p + length v]
       @ [length p + length v..<length p + length v + length q]"
proof -
  have a: "[0..<length p + (length v + length q)]
           = [0..<length p] @ [length p..<length p + (length v + length q)]"
    using upt_add_eq_append[of 0 "length p" "length v + length q"] by simp
  have b: "[length p..<length p + length v + length q]
           = [length p..<length p + length v]
             @ [length p + length v..<length p + length v + length q]"
    using upt_add_eq_append[of "length p" "length p + length v" "length q"] by simp
  have c: "length (p @ v @ q) = length p + (length v + length q)" by simp
  have d: "length p + (length v + length q) = length p + length v + length q" by simp
  show ?thesis
    unfolding c a unfolding d b ..
qed

lemma lower_middle:
  assumes "\<forall>c \<in> set v. c < 128"
  shows "\<exists>p' q'. lower ulower (p @ v @ q) = p' @ map ascii_lower v @ q'"
proof -
  define s where "s = p @ v @ q"
  define f where "f = (\<lambda>i. if s ! i < 128 then [ascii_lower (s ! i)] else ulower s i)"
  have mid: "map f [length p..<length p + length v] = map (\<lambda>c. [ascii_lower c]) v"
  proof (rule nth_equalityI)
    show "length (map f [length p..<length p + length v]) = length (map (\<lambda>c. [ascii_lower c]) v)"
      by simp
  next
    fix i assume "i < length (map f [length p..<length p + length v])"
    then have i: "i < length v" by simp
    then have "s ! (length p + i) = v ! i"
      by (simp add: s_def nth_append)
    moreover have "v ! i < 128" using assms i by simp
    ultimately show "map f [length p..<length p + length v] ! i = map (\<lambda>c. [ascii_lower c]) v ! i"
      using i by (simp add: f_def)
  qed
  have "lower ulower s = concat (map f [0..<length s])"
    by (simp add: lower_def f_def)
  also have "\<dots> = concat (map f [0..<length p]) @ concat (map f [length p..<length p + length v])
        @ concat (map f [length p + length v..<length p + length v + length q])"
    unfolding s_def upt_three by (simp only: map_append concat_append)
  also have "concat (map f [length p..<length p + length v]) = map ascii_lower v"
    unfolding mid by (rule concat_map_single)
  finally show ?thesis unfolding s_def by blast
qed

lemma contains_lower_variant:
  assumes "map ascii_lower v = k" and "\<forall>c \<in> set k. c < 128"
  shows "contains k (lower ulower (p @ v @ q))"
proof -
  have "\<forall>c \<in> set v. c < 128"
  proof
    fix c assume "c \<in> set v"
    then have "ascii_lower c \<in> set k" using assms(1) by auto
    then have "ascii_lower c < 128" using assms(2) by blast
    then show "c < 128" by (simp add: ascii_lower_less)
  qed
  from lower_middle[OF this] obtain p' q'
    where "lower ulower (p @ v @ q) = p' @ map ascii_lower v @ q'" by blast
  then show ?thesis unfolding contains_iff assms(1) by blast
qed

section \<open>The publish year\<close>

lemma asc_dash: "asc ''-'' = [45]"
  by (simp add: asc_def)

lemma isdigit_iff: "isdigit udigit s \<longleftrightarrow> s \<noteq> [] \<and> (\<forall>c \<in> set s. is_digit udigit c)"
  by (simp add: isdigit_def list_all_iff)

lemma parse_publish_year_str:
  "parse_publish_year udigit (PStr s) = publish_year_spec udigit (Some s)"
  by (auto simp: parse_publish_year_def publish_year_spec_def asc_dash contains_single
      hd_split_from_single split_def isdigit_iff unknown_def)

lemma parse_publish_year_other:
  "(\<forall>s. v \<noteq> PStr s) \<Longrightarrow> parse_publish_year udigit v = unknown"
  by (cases v) (auto simp: parse_publish_year_def)

text \<open>
  Claim C6. The publish year of a record: a date string with a separator gives its first
  segment (\<open>"2023-05"\<close> gives \<open>"2023"\<close>), a string of exactly four digits gives itself,
  and the empty string, None and every other shape give \<open>unknown\<close>. The function agrees
  with the derivation as the specification words it on every string and on None, and
  returns \<open>unknown\<close> on every value that is not a string.
\<close>

theorem publish_year_derivation:
  "parse_publish_year udigit (of_date d) = publish_year_spec udigit d \<and>
   ((\<forall>s. v \<noteq> PStr s) \<longrightarrow> parse_publish_year udigit v = unknown) \<and>
   parse_publish_year udigit (PStr (asc ''2023-05'')) = asc ''2023'' \<and>
   parse_publish_year udigit (PStr (asc ''2023'')) = asc ''2023'' \<and>
   parse_publish_year udigit (PStr []) = unknown \<and>
   parse_publish_year udigit PNone = unknown"
proof (intro conjI impI)
  show "parse_publish_year udigit (of_date d) = publish_year_spec udigit d"
  proof (cases d)
    case None
    then show ?thesis
      by (simp add: of_date_def parse_publish_year_def publish_year_spec_def)
  next
    case (Some s)
    then show ?thesis
      by (simp add: of_date_def parse_publish_year_str)
  qed
next
  assume "\<forall>s. v \<noteq> PStr s"
  then show "parse_publish_year udigit v = unknown"
    by (rule parse_publish_year_other)
next
  show "parse_publish_year udigit (PStr (asc ''2023-05'')) = asc ''2023''"
    by (simp add: parse_publish_year_str publish_year_spec_def asc_def)
next
  show "parse_publish_year udigit (PStr (asc ''2023'')) = asc ''2023''"
    by (simp add: parse_publish_year_str publish_year_spec_def asc_def is_digit_def)
next
  show "parse_publish_year udigit (PStr []) = unknown"
    by (simp add: parse_publish_year_def)
next
  show "parse_publish_year udigit PNone = unknown"
    by (simp add: parse_publish_year_def)
qed

theorem publish_year_derivation_witness:
  "parse_publish_year (\<lambda>c. False) (PStr (asc ''2021-11-30'')) = asc ''2021'' \<and>
   parse_publish_year (\<lambda>c. False) (PInt 2023) = unknown"
proof -
  have h: "\<forall>s. PInt 2023 \<noteq> PStr s" by simp
  show ?thesis
    using h publish_year_derivation [of "\<lambda>c. False" "Some (asc ''2021-11-30'')" "PInt 2023"]
    by (simp add: of_date_def publish_year_spec_def asc_def)
qed

section \<open>The method classification\<close>

lemma any_in_iff: "any_in ks t \<longleftrightarrow> (\<exists>k \<in> set ks. contains k t)"
  by (simp add: any_in_def list_ex_iff)

lemma classify_rct:
  assumes "k \<in> set rct_triggers" and "contains k (lower ulower text)"
  shows "classify_research_method ulower text = cat_rct"
proof -
  have "any_in rct_triggers (lower ulower text)"
    using assms unfolding any_in_iff by blast
  then show ?thesis by (simp add: classify_research_method_def Let_def)
qed

lemma classify_priority:
  "classify_research_method ulower text = classify_by_priority ulower text"
  by (simp add: classify_research_method_def classify_by_priority_def priority_table_def
      any_in_iff Let_def)

lemma classify_other:
  "\<forall>t \<in> set known_triggers. \<not> contains t (lower ulower text)
   \<Longrightarrow> classify_research_method ulower text = cat_other"
  by (auto simp: classify_research_method_def any_in_iff Let_def known_triggers_def)

lemma rct_phrase_ascii: "\<forall>c \<in> set (asc ''randomized controlled trial''). c < 128"
  by (simp add: asc_def)

text \<open>
  Claim C5. The classification is a function of the methods text: it is the first match in
  the priority table (RCT, cohort, case-control, cross-sectional, case report) over the
  lowercased text; a text with \<open>randomized controlled trial\<close> in any letter case in it is
  RCT; a text whose lowercased form has none of the known triggers is \<open>other\<close>.
\<close>

theorem classification_priority_rule:
  "classify_research_method ulower text = classify_by_priority ulower text \<and>
   (\<forall>p v q. map ascii_lower v = asc ''randomized controlled trial'' \<longrightarrow>
      classify_research_method ulower (p @ v @ q) = cat_rct) \<and>
   ((\<forall>t \<in> set known_triggers. \<not> contains t (lower ulower text)) \<longrightarrow>
      classify_research_method ulower text = cat_other)"
proof (intro conjI allI impI)
  show "classify_research_method ulower text = classify_by_priority ulower text"
    by (rule classify_priority)
next
  fix p v q assume v: "map ascii_lower v = asc ''randomized controlled trial''"
  have "contains (asc ''randomized controlled trial'') (lower ulower (p @ v @ q))"
    using contains_lower_variant[OF v rct_phrase_ascii] .
  moreover have "asc ''randomized controlled trial'' \<in> set rct_triggers"
    by (simp add: rct_triggers_def)
  ultimately show "classify_research_method ulower (p @ v @ q) = cat_rct"
    by (rule classify_rct[rotated])
next
  assume "\<forall>t \<in> set known_triggers. \<not> contains t (lower ulower text)"
  then show "classify_research_method ulower text = cat_other"
    by (rule classify_other)
qed

theorem classification_priority_rule_witness:
  "classify_research_method (\<lambda>s i. [s ! i])
     (asc ''A '' @ asc ''Randomized CONTROLLED Trial'' @ asc '' of statins'') = cat_rct \<and>
   classify_research_method (\<lambda>s i. [s ! i]) (asc ''Survey of nurses'') = cat_other"
proof -
  have h1: "map ascii_lower (asc ''Randomized CONTROLLED Trial'')
            = asc ''randomized controlled trial''"
    by (simp add: asc_def ascii_lower_def)
  have "\<forall>c \<in> set (asc ''Survey of nurses''). c < 128"
    by (simp add: asc_def)
  then have low: "lower (\<lambda>s i. [s ! i]) (asc ''Survey of nurses'')
                  = map ascii_lower (asc ''Survey of nurses'')"
    by (rule lower_ascii)
  have h2: "\<forall>t \<in> set known_triggers.
              \<not> contains t (lower (\<lambda>s i. [s ! i]) (asc ''Survey of nurses''))"
    unfolding low
    by (simp add: known_triggers_def rct_triggers_def cohort_triggers_def
        case_control_triggers_def cross_sectional_triggers_def case_report_triggers_def
        asc_def ascii_lower_def)
  show ?thesis
    using h1 h2
      classification_priority_rule [of "\<lambda>s i. [s ! i]" "asc ''Survey of nurses''"]
    by blast
qed

text \<open>
  Claim C10. Triggers are matched as substrings of the lowercased text, not as words: every
  text whose lowercased form has \<open>rct\<close> in it is RCT, whatever later triggers it also has,
  as the text with \<open>infarct\<close>, \<open>cohort\<close> and \<open>case-control\<close> shows.
\<close>

theorem rct_substring_match:
  "(contains (asc ''rct'') (lower ulower text) \<longrightarrow>
      classify_research_method ulower text = cat_rct) \<and>
   classify_research_method ulower
     (asc ''Myocardial infarct in a cohort; case-control design'') = cat_rct"
proof (intro conjI impI)
  assume "contains (asc ''rct'') (lower ulower text)"
  moreover have "asc ''rct'' \<in> set rct_triggers" by (simp add: rct_triggers_def)
  ultimately show "classify_research_method ulower text = cat_rct"
    by (rule classify_rct[rotated])
next
  let ?t = "asc ''Myocardial infarct in a cohort; case-control design''"
  have "\<forall>c \<in> set ?t. c < 128" by (simp add: asc_def)
  then have "lower ulower ?t = map ascii_lower ?t" by (rule lower_ascii)
  moreover have "map ascii_lower ?t
      = asc ''myocardial infa'' @ asc ''rct'' @ asc '' in a cohort; case-control design''"
    by (simp add: asc_def ascii_lower_def)
  ultimately have "contains (asc ''rct'') (lower ulower ?t)"
    unfolding contains_iff by metis
  moreover have "asc ''rct'' \<in> set rct_triggers" by (simp add: rct_triggers_def)
  ultimately show "classify_research_method ulower ?t = cat_rct"
    by (rule classify_rct[rotated])
qed

theorem rct_substring_match_witness:
  "contains (asc ''rct'') (lower (\<lambda>s i. [s ! i]) (asc ''Infarct size'')) \<and>
   classify_research_method (\<lambda>s i. [s ! i]) (asc ''Infarct size'') = cat_rct"
proof -
  have "\<forall>c \<in> set (asc ''Infarct size''). c < 128"
    by (simp add: asc_def)
  then have low: "lower (\<lambda>s i. [s ! i]) (asc ''Infarct size'')
                  = map ascii_lower (asc ''Infarct size'')"
    by (rule lower_ascii)
  have h: "contains (asc ''rct'') (lower (\<lambda>s i. [s ! i]) (asc ''Infarct size''))"
    unfolding low by (simp add: asc_def ascii_lower_def)
  show ?thesis
    using h rct_substring_match [of "\<lambda>s i. [s ! i]" "asc ''Infarct size''"]
    by blast
qed

section \<open>The report file name\<close>









section \<open>The bibliographic tool\<close>

lemma contains_middle: "contains k (p @ k @ q)"
  unfolding contains_iff by blast

text \<open>
  Claim C4. When the external search or fetch raises, the tool does not raise: it returns an
  envelope with status \<open>error\<close> whose message has the text of the exception in it, and whose
  data is the placeholder dataset. The dataset has ten records that depend neither on the
  exception nor on the keywords: record \<open>i\<close> has the fixed title followed by the digit
  \<open>i\<close>, and the same date, journal, methods text, conclusion and author list as every
  other record.
\<close>

theorem pubmed_failure_placeholder:
  "(search_fetch keywords = Inl e \<longrightarrow>
      (\<exists>msg. pubmed_run itext search_fetch keywords =
               PDict [(asc ''status'', PStr (asc ''error'')), (asc ''message'', PStr msg),
                      (asc ''data'', PList placeholder_data)] \<and>
             contains (str_exn itext e) msg)) \<and>
   length placeholder_data = 10 \<and>
   (\<forall>i < 10. placeholder_data ! i =
      PDict [(asc ''title'', PStr ([27169, 25311, 35770, 25991] @ [48 + i])),
             (asc ''publish_date'', PStr (asc ''2024-01-01'')),
             (asc ''journal_name'', PStr [27169, 25311, 26399, 21002]),
             (asc ''methods_original'',
                PStr [38543, 26426, 23545, 29031, 35797, 39564, 65288, 82, 67, 84, 65289,
                      30740, 31350, 65292, 36873, 21462, 49, 48, 48, 20363, 24739, 32773,
                      20998, 20026, 23454, 39564, 32452, 21644, 23545, 29031, 32452]),
             (asc ''conclusion'',
                PStr [27169, 25311, 32467, 35770, 65306, 35813, 27835, 30103, 26041, 26696,
                      26377, 25928]),
             (asc ''authors'', PList [PStr (asc ''Author A'')])])"
proof (intro conjI impI allI)
  assume sf: "search_fetch keywords = Inl e"
  let ?msg = "[80, 117, 98, 77, 101, 100, 26816, 32034, 22833, 36133, 65306] @
              str_exn itext e @ [65292, 20351, 29992, 27169, 25311, 25968, 25454]"
  have "pubmed_run itext search_fetch keywords =
          PDict [(asc ''status'', PStr (asc ''error'')), (asc ''message'', PStr ?msg),
                 (asc ''data'', PList placeholder_data)]"
    using sf by (simp add: pubmed_run_def)
  moreover have "contains (str_exn itext e) ?msg"
    by (rule contains_middle)
  ultimately show "\<exists>msg. pubmed_run itext search_fetch keywords =
               PDict [(asc ''status'', PStr (asc ''error'')), (asc ''message'', PStr msg),
                      (asc ''data'', PList placeholder_data)] \<and>
             contains (str_exn itext e) msg"
    by blast
next
  show "length placeholder_data = 10" by (simp add: placeholder_data_def)
next
  fix i :: nat assume i: "i < 10"
  then have "placeholder_data ! i = placeholder_paper i"
    unfolding placeholder_data_def by (simp del: upt_Suc)
  moreover have "str_nat i = [48 + i]" using i by (simp add: str_nat.simps)
  moreover have "asc ''RCT'' = [82, 67, 84]" "asc ''100'' = [49, 48, 48]"
    by (simp_all add: asc_def)
  ultimately show "placeholder_data ! i =
      PDict [(asc ''title'', PStr ([27169, 25311, 35770, 25991] @ [48 + i])),
             (asc ''publish_date'', PStr (asc ''2024-01-01'')),
             (asc ''journal_name'', PStr [27169, 25311, 26399, 21002]),
             (asc ''methods_original'',
                PStr [38543, 26426, 23545, 29031, 35797, 39564, 65288, 82, 67, 84, 65289,
                      30740, 31350, 65292, 36873, 21462, 49, 48, 48, 20363, 24739, 32773,
                      20998, 20026, 23454, 39564, 32452, 21644, 23545, 29031, 32452]),
             (asc ''conclusion'',
                PStr [27169, 25311, 32467, 35770, 65306, 35813, 27835, 30103, 26041, 26696,
                      26377, 25928]),
             (asc ''authors'', PList [PStr (asc ''Author A'')])]"
    by (simp add: placeholder_paper_def)
qed

theorem pubmed_failure_placeholder_witness:
  "(\<exists>msg. pubmed_run (\<lambda>e. []) (\<lambda>k. Inl (External (asc ''HTTP Error 429''))) (asc ''diabetes'') =
            PDict [(asc ''status'', PStr (asc ''error'')), (asc ''message'', PStr msg),
                   (asc ''data'', PList placeholder_data)] \<and>
          contains (asc ''HTTP Error 429'') msg) \<and>
   subscript (placeholder_data ! 3) ''title'' = Inr (PStr [27169, 25311, 35770, 25991, 51]) \<and>
   subscript (placeholder_data ! 3) ''authors'' = Inr (PList [PStr (asc ''Author A'')])"
proof -
  have h: "(\<lambda>k. Inl (External (asc ''HTTP Error 429''))) (asc ''diabetes'')
           = (Inl (External (asc ''HTTP Error 429'')) :: exn + pyval list)"
    by simp
  have i: "(3::nat) < 10" by simp
  have s: "str_exn (\<lambda>e. []) (External (asc ''HTTP Error 429'')) = asc ''HTTP Error 429''"
    by (simp add: str_exn_def)
  note t = pubmed_failure_placeholder
      [of "\<lambda>k. Inl (External (asc ''HTTP Error 429''))" "asc ''diabetes''"
          "External (asc ''HTTP Error 429'')" "\<lambda>e. []"]
  have a: "\<exists>msg. pubmed_run (\<lambda>e. []) (\<lambda>k. Inl (External (asc ''HTTP Error 429''))) (asc ''diabetes'') =
            PDict [(asc ''status'', PStr (asc ''error'')), (asc ''message'', PStr msg),
                   (asc ''data'', PList placeholder_data)] \<and>
          contains (asc ''HTTP Error 429'') msg"
    using h t unfolding s by blast
  have "placeholder_data ! 3 =
      PDict [(asc ''title'', PStr ([27169, 25311, 35770, 25991] @ [48 + 3])),
             (asc ''publish_date'', PStr (asc ''2024-01-01'')),
             (asc ''journal_name'', PStr [27169, 25311, 26399, 21002]),
             (asc ''methods_original'',
                PStr [38543, 26426, 23545, 29031, 35797, 39564, 65288, 82, 67, 84, 65289,
                      30740, 31350, 65292, 36873, 21462, 49, 48, 48, 20363, 24739, 32773,
                      20998, 20026, 23454, 39564, 32452, 21644, 23545, 29031, 32452]),
             (asc ''conclusion'',
                PStr [27169, 25311, 32467, 35770, 65306, 35813, 27835, 30103, 26041, 26696,
                      26377, 25928]),
             (asc ''authors'', PList [PStr (asc ''Author A'')])]"
    using i t by blast
  then have b: "subscript (placeholder_data ! 3) ''title'' = Inr (PStr [27169, 25311, 35770, 25991, 51])"
    and c: "subscript (placeholder_data ! 3) ''authors'' = Inr (PList [PStr (asc ''Author A'')])"
    by (simp_all add: subscript_def asc_def)
  from a b c show ?thesis by blast
qed

section \<open>Fenced completions\<close>

lemma contains_Cons: "contains k s \<Longrightarrow> contains k (c # s)"
  by simp

lemma contains_prefix:
  assumes "contains k a"
  shows "contains k (a @ b)"
proof -
  from assms obtain p q where "a = p @ k @ q" unfolding contains_iff by blast
  then have "a @ b = p @ k @ (q @ b)" by simp
  then show ?thesis unfolding contains_iff by blast
qed

lemma contains_suffix:
  assumes "contains k b"
  shows "contains k (a @ b)"
proof -
  from assms obtain p q where "b = p @ k @ q" unfolding contains_iff by blast
  then have "a @ b = (a @ p) @ k @ q" by simp
  then show ?thesis unfolding contains_iff by blast
qed

lemma startswith_contains: "startswith s k \<Longrightarrow> contains k s"
  by (cases s) (auto simp: startswith_iff)

lemma startswith_cut:
  assumes "startswith (u @ c # b) k" and "c \<notin> set k"
  shows "startswith u k"
proof -
  from assms(1) obtain r where eq: "u @ c # b = k @ r"
    by (auto simp: startswith_iff)
  then consider w where "u = k @ w" | w where "k = u @ w" "w \<noteq> []" "c # b = w @ r"
    by (auto simp: append_eq_append_conv2) (metis append.right_neutral)
  then show ?thesis
  proof cases
    case 1
    then show ?thesis by (auto simp: startswith_iff)
  next
    case 2
    then have "c \<in> set k" by (cases w) auto
    with assms(2) show ?thesis by contradiction
  qed
qed

lemma contains_split_char:
  "contains k (a @ c # b) \<Longrightarrow> c \<notin> set k \<Longrightarrow> contains k a \<or> contains k b"
proof (induction a)
  case Nil
  then show ?case
    using startswith_cut[of "[]" c b k] by (cases k) auto
next
  case (Cons x a)
  from Cons.prems(1) consider "startswith ((x # a) @ c # b) k" | "contains k (a @ c # b)"
    by auto
  then show ?case
  proof cases
    case 1
    then have "startswith (x # a) k" using Cons.prems(2) by (rule startswith_cut)
    then show ?thesis by (auto dest: startswith_contains)
  next
    case 2
    then show ?thesis using Cons by auto
  qed
qed

lemma replace_no_match:
  "\<not> contains old s \<Longrightarrow> replace old new s = s"
  by (induction s) auto

lemma split_from_nonempty: "split_from sep cur s \<noteq> []"
  by (induction s arbitrary: cur) auto

lemma split_from_no_match:
  assumes "sep \<noteq> []" and "\<not> contains sep (body @ butlast sep)"
  shows "split_from sep cur (body @ sep @ rest) = (cur @ body) # split_from sep [] rest"
  using assms(2)
proof (induction body arbitrary: cur)
  case Nil
  obtain c cs where sep: "sep = c # cs" using assms(1) by (cases sep) auto
  have "startswith (sep @ rest) sep" by (simp add: startswith_iff)
  then show ?case by (simp add: sep)
next
  case (Cons b body)
  have no: "\<not> startswith (b # body @ sep @ rest) sep"
  proof
    assume "startswith (b # body @ sep @ rest) sep"
    then obtain r where r: "b # body @ sep @ rest = sep @ r"
      by (auto simp: startswith_iff)
    have "sep = butlast sep @ [last sep]" using assms(1) by simp
    then have "(b # body @ butlast sep) @ (last sep # rest) = sep @ r"
      using r by (metis append.assoc append_Cons append_Nil)
    moreover have "length sep \<le> length (b # body @ butlast sep)" by simp
    ultimately obtain w where "b # body @ butlast sep = sep @ w"
      by (metis append_eq_append_conv_if append_take_drop_id)
    then have "startswith ((b # body) @ butlast sep) sep"
      by (auto simp: startswith_iff)
    then have "contains sep ((b # body) @ butlast sep)"
      by (rule startswith_contains)
    with Cons.prems show False by contradiction
  qed
  have "\<not> contains sep (body @ butlast sep)"
    using Cons.prems by auto
  then have "split_from sep (cur @ [b]) (body @ sep @ rest)
             = ((cur @ [b]) @ body) # split_from sep [] rest"
    by (rule Cons.IH)
  then show ?case using no by simp
qed

lemma strip_Cons_space: "is_space c \<Longrightarrow> strip (c # s) = strip s"
  by (simp add: strip_def)

lemma strip_snoc_space:
  assumes "is_space c"
  shows "strip (s @ [c]) = strip s"
proof (cases "\<forall>x \<in> set s. is_space x")
  case True
  then have d: "dropWhile is_space (s @ [c]) = []" "dropWhile is_space s = []"
    using assms by (simp_all add: dropWhile_eq_Nil_conv)
  show ?thesis unfolding strip_def d ..
next
  case False
  then have "dropWhile is_space (s @ [c]) = dropWhile is_space s @ [c]"
    by (auto simp: dropWhile_append1)
  then show ?thesis using assms by (simp add: strip_def)
qed

lemma strip_sub: "\<exists>p q. x = p @ strip x @ q"
proof -
  have a: "x = takeWhile is_space x @ dropWhile is_space x" by simp
  let ?d = "dropWhile is_space x"
  have "rev ?d = takeWhile is_space (rev ?d) @ dropWhile is_space (rev ?d)" by simp
  then have "?d = rev (dropWhile is_space (rev ?d)) @ rev (takeWhile is_space (rev ?d))"
    by (metis rev_append rev_rev_ident)
  then have "?d = strip x @ rev (takeWhile is_space (rev ?d))"
    by (simp add: strip_def)
  with a show ?thesis by metis
qed

lemma strip_id:
  assumes "s \<noteq> []" and "\<not> is_space (hd s)" and "\<not> is_space (last s)"
  shows "strip s = s"
proof -
  have "dropWhile is_space s = s" using assms by (cases s) auto
  moreover have "dropWhile is_space (rev s) = rev s"
    using assms by (cases "rev s") (auto simp: last_rev[symmetric] hd_rev)
  ultimately show ?thesis by (simp add: strip_def)
qed

lemma fence_eq: "fence = [96, 96, 96]"
  by (simp add: fence_def asc_def)

lemma json_eq: "asc ''json'' = [106, 115, 111, 110]"
  by (simp add: asc_def)

lemma clean_fenced_total: "\<exists>t. clean_fenced raw = Inr t"
proof (cases "startswith (strip raw) fence")
  case False
  then show ?thesis by (simp add: clean_fenced_def)
next
  case True
  then obtain c cs where s: "strip raw = c # cs"
    by (cases "strip raw") (auto simp: fence_eq)
  obtain b rest where "split_from fence [] (drop (length fence - 1) cs) = b # rest"
    using split_from_nonempty by (meson list.exhaust)
  then have "split fence (strip raw) = [] # b # rest"
    using True by (simp add: split_def s)
  then show ?thesis using True by (simp add: clean_fenced_def)
qed

lemma strip_newlines: "strip ([10] @ x @ [10]) = strip x"
proof -
  have sp: "is_space 10" by (simp add: is_space_def)
  have "strip ([10] @ x @ [10]) = strip (x @ [10])"
    using strip_Cons_space[OF sp] by simp
  then show ?thesis using strip_snoc_space[OF sp] by simp
qed

lemma no_match_in_lines:
  assumes "contains k ([10] @ x @ [10])" and "10 \<notin> set k" and "k \<noteq> []"
  shows "contains k x"
proof -
  from assms(1) have "contains k ([] @ 10 # (x @ [10]))" by simp
  then have "contains k [] \<or> contains k (x @ [10])"
    using assms(2) by (rule contains_split_char)
  then have "contains k (x @ 10 # [])" using assms(3) by auto
  then have "contains k x \<or> contains k []"
    using assms(2) by (rule contains_split_char)
  then show ?thesis using assms(3) by auto
qed

lemma clean_fenced_plain:
  assumes "\<not> contains fence x"
  shows "clean_fenced x = Inr (strip x)"
proof -
  have "\<not> startswith (strip x) fence"
  proof
    assume "startswith (strip x) fence"
    then have "contains fence (strip x)" by (rule startswith_contains)
    moreover obtain p q where "x = p @ strip x @ q" using strip_sub by blast
    ultimately have "contains fence x"
      by (metis contains_prefix contains_suffix)
    with assms show False by contradiction
  qed
  then show ?thesis by (simp add: clean_fenced_def)
qed

lemma clean_fenced_wrapped:
  assumes nf: "\<not> contains fence x" and nj: "\<not> contains (asc ''json'') x"
    and tag: "tag = [] \<or> tag = asc ''json''"
  shows "clean_fenced (fenced tag x) = Inr (strip x)"
proof -
  let ?body = "tag @ [10] @ x @ [10]"
  have f: "fenced tag x = fence @ ?body @ fence @ []" by (simp add: fenced_def)
  have st: "strip (fenced tag x) = fenced tag x"
    by (rule strip_id) (simp_all add: fenced_def fence_eq is_space_def)
  have sw: "startswith (fenced tag x) fence"
    by (simp add: f startswith_iff)
  have tagfence: "\<not> contains fence tag"
    using tag by (auto simp: fence_eq json_eq)
  have "\<not> contains fence (?body @ butlast fence)"
  proof
    assume "contains fence (?body @ butlast fence)"
    then have "contains fence (tag @ 10 # (x @ 10 # [96, 96]))"
      by (simp add: fence_eq)
    then have "contains fence tag \<or> contains fence (x @ 10 # [96, 96])"
      by (rule contains_split_char) (simp add: fence_eq)
    then have "contains fence (x @ 10 # [96, 96])" using tagfence by blast
    then have "contains fence x \<or> contains fence [96, 96]"
      by (rule contains_split_char) (simp add: fence_eq)
    then show False using nf by (auto simp: fence_eq)
  qed
  then have "split_from fence [] (?body @ fence @ []) = ([] @ ?body) # split_from fence [] []"
    by (intro split_from_no_match) (simp add: fence_eq)
  then have tail: "split_from fence [] (?body @ fence) = [?body, []]" by simp
  have "split fence (fenced tag x) = [] # split_from fence [] (?body @ fence)"
    by (simp add: split_def fenced_def fence_eq)
  then have sp: "split fence (fenced tag x) = [[], ?body, []]"
    using tail by simp
  have nj': "\<not> contains (asc ''json'') ([10] @ x @ [10])"
    using nj no_match_in_lines[of "asc ''json''" x] by (auto simp: json_eq)
  have "replace (asc ''json'') [] ?body = [10] @ x @ [10]"
  proof -
    have a: "replace (asc ''json'') [] ([10] @ x @ [10]) = [10] @ x @ [10]"
      using nj' by (rule replace_no_match)
    show ?thesis
    proof (cases "tag = []")
      case True
      then show ?thesis using a by simp
    next
      case False
      then have "tag = [106, 115, 111, 110]" using tag by (simp add: json_eq)
      then have "replace (asc ''json'') [] ?body = replace (asc ''json'') [] ([10] @ x @ [10])"
        by (simp add: json_eq)
      then show ?thesis using a by simp
    qed
  qed
  then have "strip (replace (asc ''json'') [] ?body) = strip x"
    by (simp only: strip_newlines)
  then show ?thesis
    unfolding clean_fenced_def Let_def st using sw sp by simp
qed

lemma literature_run_parsed:
  assumes "clean_fenced output = Inr t" and "loads t = Inr v"
  shows "literature_run itext (completion_returns output) loads kw = Inr v"
  using assms by (simp add: literature_run_def completion_returns_def)

lemma data_run_parsed:
  assumes "clean_fenced output = Inr t" and "loads t = Inr v"
  shows "data_run itext (completion_returns output) loads dumps (PDict kvs) = v"
  using assms by (simp add: data_run_def data_input_str_def completion_returns_def)

lemma parse_input_data_parsed:
  assumes "clean_fenced s = Inr t" and "loads t = Inr v"
  shows "parse_input_data loads (PStr s) = Inr v"
  using assms by (simp add: parse_input_data_def)

text \<open>
  Where the cleaning is exact. For a JSON object text \<open>x\<close> that the decoder accepts and
  that has neither \<open>json\<close> nor a triple backtick in it, the text wrapped in a fence, with
  or without the language tag, is cleaned to the same text as \<open>x\<close> itself, and every
  stage decodes the same record from the two.
\<close>

theorem fenced_parse_equal:
  "\<not> contains fence x \<and> \<not> contains (asc ''json'') x \<and> (tag = [] \<or> tag = asc ''json'') \<and>
   loads (strip x) = Inr v \<longrightarrow>
     clean_fenced (fenced tag x) = Inr (strip x) \<and>
     clean_fenced x = Inr (strip x) \<and>
     literature_run itext (completion_returns (fenced tag x)) loads kw = Inr v \<and>
     literature_run itext (completion_returns x) loads kw = Inr v \<and>
     data_run itext (completion_returns (fenced tag x)) loads dumps (PDict kvs) = v \<and>
     data_run itext (completion_returns x) loads dumps (PDict kvs) = v \<and>
     parse_input_data loads (PStr (fenced tag x)) = Inr v \<and>
     parse_input_data loads (PStr x) = Inr v"
proof (intro impI)
  assume h: "\<not> contains fence x \<and> \<not> contains (asc ''json'') x \<and>
             (tag = [] \<or> tag = asc ''json'') \<and> loads (strip x) = Inr v"
  then have w: "clean_fenced (fenced tag x) = Inr (strip x)"
    by (intro clean_fenced_wrapped) simp_all
  from h have p: "clean_fenced x = Inr (strip x)"
    by (intro clean_fenced_plain) simp
  from h have l: "loads (strip x) = Inr v" by simp
  show "clean_fenced (fenced tag x) = Inr (strip x) \<and>
     clean_fenced x = Inr (strip x) \<and>
     literature_run itext (completion_returns (fenced tag x)) loads kw = Inr v \<and>
     literature_run itext (completion_returns x) loads kw = Inr v \<and>
     data_run itext (completion_returns (fenced tag x)) loads dumps (PDict kvs) = v \<and>
     data_run itext (completion_returns x) loads dumps (PDict kvs) = v \<and>
     parse_input_data loads (PStr (fenced tag x)) = Inr v \<and>
     parse_input_data loads (PStr x) = Inr v"
    using w p literature_run_parsed[where loads=loads, OF w l] literature_run_parsed[where loads=loads, OF p l]
      data_run_parsed[where loads=loads, OF w l] data_run_parsed[where loads=loads, OF p l]
      parse_input_data_parsed[where loads=loads, OF w l] parse_input_data_parsed[where loads=loads, OF p l]
    by simp
qed

theorem fenced_parse_equal_witness:
  \<open>literature_run itext_sample
      (completion_returns (fenced (asc ''json'') (asc ''  {"tool": ""} ''))) loads_sample []
    = Inr (PDict [(asc ''tool'', PStr [])]) \<and>
   literature_run itext_sample (completion_returns (asc ''  {"tool": ""} '')) loads_sample []
    = Inr (PDict [(asc ''tool'', PStr [])])\<close>
proof -
  let ?x = \<open>asc ''  {"tool": ""} ''\<close>
  have s: \<open>strip ?x = asc ''{"tool": ""}''\<close>
    by (simp add: strip_def asc_def is_space_def)
  have h1: "\<not> contains fence ?x"
    by (simp add: fence_eq asc_def)
  have h2: "\<not> contains (asc ''json'') ?x"
    by (simp add: asc_def)
  have h3: "asc ''json'' = [] \<or> asc ''json'' = asc ''json''" by simp
  have h4: "loads_sample (strip ?x) = Inr (PDict [(asc ''tool'', PStr [])])"
    unfolding s by (simp add: loads_sample_def asc_def)
  show ?thesis
    using h1 h2 h3 h4
      fenced_parse_equal [of ?x "asc ''json''" loads_sample "PDict [(asc ''tool'', PStr [])]"
        itext_sample "[]"]
    by blast
qed

text \<open>
  Claim C3. The comment of the source announces the removal of the markdown wrapping, but
  \<open>replace("json", "")\<close> removes every \<open>json\<close> of the fenced segment, not only the
  language tag: the object \<open>{"tool": "json"}\<close> wrapped in a fence with the tag is handed
  to the decoder as \<open>{"tool": ""}\<close>, while the same object without a fence is handed
  over as it is. The two parses differ.
\<close>

theorem fenced_json_value_is_erased:
  \<open>clean_fenced (fenced (asc ''json'') (asc ''{"tool": "json"}'')) = Inr (asc ''{"tool": ""}'') \<and>
   clean_fenced (asc ''{"tool": "json"}'') = Inr (asc ''{"tool": "json"}'')\<close>
  by (simp add: clean_fenced_def fenced_def fence_eq split_def strip_def is_space_def asc_def)

lemma contains_end: "contains k (p @ k)"
  using contains_middle[of k p "[]"] by simp

text \<open>
  Claim C2, as amended. The cleaning never raises. When \<open>json.loads\<close> rejects the cleaned
  completion text with a JSONDecodeError of diagnostic \<open>d\<close>: the Literature Stage returns
  an envelope with status \<open>error\<close> whose message has \<open>d\<close> and the raw completion text in
  it; the Statistical Stage returns an envelope with status \<open>error\<close>, an empty statistic
  and no plot paths; the parser of the Report Stage returns the empty dict and no error
  envelope. The three sites do not have one contract.
\<close>

theorem malformed_completion_contract:
  "(\<exists>t. clean_fenced out = Inr t) \<and>
   (clean_fenced out = Inr t \<and> loads t = Inl (JSONDecodeError d) \<longrightarrow>
     (\<exists>msg. literature_run itext (completion_returns out) loads kw =
              Inr (PDict [(asc ''status'', PStr (asc ''error'')), (asc ''message'', PStr msg),
                          (asc ''data'', PList [])]) \<and>
            contains out msg \<and> contains d msg) \<and>
     (\<exists>msg. data_run itext (completion_returns out) loads dumps (PDict kvs) =
              PDict [(asc ''status'', PStr (asc ''error'')), (asc ''message'', PStr msg),
                     (asc ''statistic'', PDict []), (asc ''plot_paths'', PList [])]) \<and>
     parse_input_data loads (PStr out) = Inr (PDict []))"
proof (intro conjI impI)
  show "\<exists>t. clean_fenced out = Inr t" by (rule clean_fenced_total)
next
  assume h: "clean_fenced out = Inr t \<and> loads t = Inl (JSONDecodeError d)"
  let ?msg = "[32467, 26524, 35299, 26512, 22833, 36133, 65306] @ d @
              [65292, 21407, 22987, 36755, 20986, 65306] @ out"
  have "literature_run itext (completion_returns out) loads kw =
          Inr (PDict [(asc ''status'', PStr (asc ''error'')), (asc ''message'', PStr ?msg),
                      (asc ''data'', PList [])])"
    using h by (simp add: literature_run_def completion_returns_def is_json_error_def
        parse_failed_def literature_error_def str_exn_def)
  moreover have "contains out ?msg"
    using contains_end[of out "[32467, 26524, 35299, 26512, 22833, 36133, 65306] @ d @
              [65292, 21407, 22987, 36755, 20986, 65306]"] by simp
  moreover have "contains d ?msg"
    by (rule contains_middle)
  ultimately show "\<exists>msg. literature_run itext (completion_returns out) loads kw =
              Inr (PDict [(asc ''status'', PStr (asc ''error'')), (asc ''message'', PStr msg),
                          (asc ''data'', PList [])]) \<and>
            contains out msg \<and> contains d msg"
    by blast
next
  assume h: "clean_fenced out = Inr t \<and> loads t = Inl (JSONDecodeError d)"
  then have "data_run itext (completion_returns out) loads dumps (PDict kvs) =
       PDict [(asc ''status'', PStr (asc ''error'')),
              (asc ''message'',
                 PStr ([36755, 20837, 25968, 25454, 26684, 24335, 38169, 35823, 65288, 38750,
                        26377, 25928, 74, 83, 79, 78, 65289, 65306] @ d)),
              (asc ''statistic'', PDict []), (asc ''plot_paths'', PList [])]"
    by (simp add: data_run_def data_input_str_def completion_returns_def data_failed_def
        is_json_error_def data_error_def str_exn_def)
  then show "\<exists>msg. data_run itext (completion_returns out) loads dumps (PDict kvs) =
              PDict [(asc ''status'', PStr (asc ''error'')), (asc ''message'', PStr msg),
                     (asc ''statistic'', PDict []), (asc ''plot_paths'', PList [])]"
    by (rule_tac x = "[36755, 20837, 25968, 25454, 26684, 24335, 38169, 35823, 65288, 38750,
                        26377, 25928, 74, 83, 79, 78, 65289, 65306] @ d" in exI)
next
  assume h: "clean_fenced out = Inr t \<and> loads t = Inl (JSONDecodeError d)"
  then show "parse_input_data loads (PStr out) = Inr (PDict [])"
    by (simp add: parse_input_data_def is_json_error_def)
qed

theorem malformed_completion_contract_witness:
  "(\<exists>msg. literature_run itext_sample (completion_returns (asc ''not json'')) loads_sample [] =
            Inr (PDict [(asc ''status'', PStr (asc ''error'')), (asc ''message'', PStr msg),
                        (asc ''data'', PList [])]) \<and>
          contains (asc ''not json'') msg \<and>
          contains (asc ''Expecting value: line 1 column 1 (char 0)'') msg) \<and>
   (\<exists>msg. data_run itext_sample (completion_returns (asc ''not json'')) loads_sample dumps_sample
            (PDict []) =
            PDict [(asc ''status'', PStr (asc ''error'')), (asc ''message'', PStr msg),
                   (asc ''statistic'', PDict []), (asc ''plot_paths'', PList [])]) \<and>
   parse_input_data loads_sample (PStr (asc ''not json'')) = Inr (PDict [])"
proof -
  have h1: "clean_fenced (asc ''not json'') = Inr (asc ''not json'')"
    by (simp add: clean_fenced_def fence_eq strip_def is_space_def asc_def)
  have h2: "loads_sample (asc ''not json'')
            = Inl (JSONDecodeError (asc ''Expecting value: line 1 column 1 (char 0)''))"
    by (simp add: loads_sample_def asc_def)
  show ?thesis
    using h1 h2
      malformed_completion_contract [of "asc ''not json''" "asc ''not json''" loads_sample
        "asc ''Expecting value: line 1 column 1 (char 0)''" itext_sample "[]" dumps_sample "[]"]
    by blast
qed

theorem parse_contract_differs_counterexample:
  "literature_run itext_sample (completion_returns (asc ''not json'')) loads_sample [] =
     Inr (PDict [(asc ''status'', PStr (asc ''error'')),
                 (asc ''message'',
                    PStr ([32467, 26524, 35299, 26512, 22833, 36133, 65306] @
                          asc ''Expecting value: line 1 column 1 (char 0)'' @
                          [65292, 21407, 22987, 36755, 20986, 65306] @ asc ''not json'')),
                 (asc ''data'', PList [])]) \<and>
   parse_input_data loads_sample (PStr (asc ''not json'')) = Inr (PDict [])"
proof (intro conjI)
  have h1: "clean_fenced (asc ''not json'') = Inr (asc ''not json'')"
    by (simp add: clean_fenced_def fence_eq strip_def is_space_def asc_def)
  have h2: "loads_sample (asc ''not json'')
            = Inl (JSONDecodeError (asc ''Expecting value: line 1 column 1 (char 0)''))"
    by (simp add: loads_sample_def asc_def)
  show "literature_run itext_sample (completion_returns (asc ''not json'')) loads_sample [] =
     Inr (PDict [(asc ''status'', PStr (asc ''error'')),
                 (asc ''message'',
                    PStr ([32467, 26524, 35299, 26512, 22833, 36133, 65306] @
                          asc ''Expecting value: line 1 column 1 (char 0)'' @
                          [65292, 21407, 22987, 36755, 20986, 65306] @ asc ''not json'')),
                 (asc ''data'', PList [])])"
    using h1 h2 by (simp add: literature_run_def completion_returns_def is_json_error_def
        parse_failed_def literature_error_def str_exn_def)
  show "parse_input_data loads_sample (PStr (asc ''not json'')) = Inr (PDict [])"
    using h1 h2 by (simp add: parse_input_data_def is_json_error_def)
qed

section \<open>The orchestrator\<close>

lemma py_eq_PStr: "py_eq v (PStr s) \<longleftrightarrow> v = PStr s"
  by (cases v) auto

lemma run_literature_halts:
  assumes "literature_agent kw = Inr L" and "subscript L ''status'' = Inr sL"
    and "subscript L ''message'' = Inr mL"
    and "\<not> (sL = PStr (asc ''success'') \<or> sL = PStr (asc ''warning''))"
  shows "run itext literature_agent data_agent report_agent kw =
           (failed_at ''literature_agent'' mL [], [LiteratureStage])"
  using assms by (simp add: run_def after_literature_def py_eq_PStr bind_exn_def)

lemma run_literature_proceeds:
  assumes "literature_agent kw = Inr L" and "subscript L ''status'' = Inr sL"
    and "sL = PStr (asc ''success'') \<or> sL = PStr (asc ''warning'')"
  shows "\<exists>tr. snd (run itext literature_agent data_agent report_agent kw)
               = LiteratureStage # DataStage # tr"
proof (cases "data_agent L")
  case (Inl e)
  with assms show ?thesis
    by (auto simp: run_def after_literature_def py_eq_PStr)
next
  case (Inr D)
  with assms show ?thesis
    by (cases "subscript D ''status''")
       (auto simp: run_def after_literature_def after_data_def py_eq_PStr)
qed

lemma run_data_halts:
  assumes "literature_agent kw = Inr L" and "subscript L ''status'' = Inr sL"
    and "sL = PStr (asc ''success'') \<or> sL = PStr (asc ''warning'')"
    and "data_agent L = Inr D" and "subscript D ''status'' = Inr sD"
    and "subscript D ''message'' = Inr mD" and "sD \<noteq> PStr (asc ''success'')"
  shows "run itext literature_agent data_agent report_agent kw =
           (failed_at ''data_agent'' mD
              [(asc ''literature_result'', L), (asc ''data_result'', D)],
            [LiteratureStage, DataStage])"
  using assms
  by (auto simp: run_def after_literature_def after_data_def py_eq_PStr bind_exn_def)

lemma run_report_invoked:
  assumes "literature_agent kw = Inr L" and "subscript L ''status'' = Inr sL"
    and "sL = PStr (asc ''success'') \<or> sL = PStr (asc ''warning'')"
    and "data_agent L = Inr D" and "subscript D ''status'' = Inr (PStr (asc ''success''))"
    and "report_agent kw L D = Inr R"
  shows "run itext literature_agent data_agent report_agent kw =
           (case final_result kw L D R of Inl e \<Rightarrow> full_chain_failed itext e | Inr r \<Rightarrow> r,
            [LiteratureStage, DataStage, ReportStage])"
  using assms
  by (auto simp: run_def after_literature_def after_data_def py_eq_PStr bind_exn_def)

lemma final_result_fields:
  assumes "final_result kw L D R = Inr r"
  shows "results r = [(asc ''literature_result'', L), (asc ''data_result'', D),
                      (asc ''report_result'', R)] \<and>
         (subscript R ''status'' = Inr (PStr (asc ''success'')) \<longrightarrow>
            chain_status r = asc ''success'' \<and> stage r = asc ''completed'') \<and>
         (subscript R ''status'' \<noteq> Inr (PStr (asc ''success'')) \<longrightarrow>
            chain_status r = asc ''failed'' \<and> stage r = asc ''report_agent'')"
  using assms
  by (auto simp: final_result_def bind_exn_def py_eq_PStr split: sum.splits)

lemma sample_subscripts:
  "subscript lit_ok ''status'' = Inr (PStr (asc ''success''))"
  "subscript lit_ok ''message'' = Inr (PStr (asc ''ok''))"
  "subscript data_warning ''status'' = Inr (PStr (asc ''warning''))"
  "subscript data_warning ''message'' = Inr (PStr (asc ''partial''))"
  "subscript data_ok ''status'' = Inr (PStr (asc ''success''))"
  "subscript data_ok ''message'' = Inr (PStr (asc ''done''))"
  "subscript report_ok ''status'' = Inr (PStr (asc ''success''))"
  "subscript (literature_error m) ''status'' = Inr (PStr (asc ''error''))"
  "subscript (literature_error m) ''message'' = Inr (PStr m)"
  by (simp_all add: subscript_def lit_ok_def data_warning_def data_ok_def report_ok_def
      literature_error_def asc_def)

lemma final_result_sample:
  "final_result (asc ''diabetes'') lit_ok data_ok report_ok =
     Inr \<lparr>chain_status = asc ''success'', stage = asc ''completed'',
          message = PStr [23436, 25972, 65, 103, 101, 110, 116, 38142, 25191, 34892, 23436,
                          25104, 65292, 25253, 21578, 24050, 29983, 25104],
          results = [(asc ''literature_result'', lit_ok), (asc ''data_result'', data_ok),
                     (asc ''report_result'', report_ok)],
          summary = Some \<lparr>s_keywords = asc ''diabetes'', s_total_papers = PInt 4,
                           main_research_method = PStr cat_rct,
                           s_report_path = PStr (asc ''./reports/r.md''),
                           s_plot_paths = PList []\<rparr>\<rparr>"
  by (simp add: final_result_def bind_exn_def dominant_method_def method_count_def py_max_def
      subscript_def dict_get_def data_ok_def report_ok_def counts_dict_def cat_rct_def
      cat_cohort_def asc_def)

lemma run_report_raises:
  assumes "literature_agent kw = Inr L" and "subscript L ''status'' = Inr sL"
    and "sL = PStr (asc ''success'') \<or> sL = PStr (asc ''warning'')"
    and "data_agent L = Inr D" and "subscript D ''status'' = Inr (PStr (asc ''success''))"
    and "report_agent kw L D = Inl e"
  shows "run itext literature_agent data_agent report_agent kw =
           (full_chain_failed itext e, [LiteratureStage, DataStage, ReportStage])"
  using assms
  by (auto simp: run_def after_literature_def after_data_def py_eq_PStr bind_exn_def)

text \<open>
  Claim C1, as amended. For a Literature Stage that returns an envelope with a status and a
  message: the Statistical Stage is invoked exactly when that status is \<open>success\<close> or
  \<open>warning\<close>; otherwise the run halts with stage \<open>literature_agent\<close>, that envelope's
  message and no envelopes in the results. For a statistical envelope with a status and a
  message, the Report Stage is invoked exactly when that status is \<open>success\<close>; on every
  other status, \<open>warning\<close> included, the run halts with stage \<open>data_agent\<close>, that
  envelope's message, and the literature and statistical envelopes in the results. After
  the Report Stage has returned, when the assembly of the final result raises nothing, the
  result carries the three envelopes and is \<open>success\<close> at stage \<open>completed\<close> for a report
  status \<open>success\<close>, \<open>failed\<close> at stage \<open>report_agent\<close> otherwise; when the Report Stage
  or the assembly raises (a statistical envelope without \<open>statistic\<close> or \<open>plot_paths\<close>,
  say), the result is \<open>failed\<close> at stage \<open>full_chain\<close> with no envelopes.
\<close>

theorem orchestrator_transitions:
  assumes "literature_agent kw = Inr L" and "subscript L ''status'' = Inr sL"
    and "subscript L ''message'' = Inr mL"
  shows
    "(DataStage \<in> set (snd (run itext literature_agent data_agent report_agent kw)) \<longleftrightarrow>
        sL = PStr (asc ''success'') \<or> sL = PStr (asc ''warning'')) \<and>
     (\<not> (sL = PStr (asc ''success'') \<or> sL = PStr (asc ''warning'')) \<longrightarrow>
        run itext literature_agent data_agent report_agent kw =
          (\<lparr>chain_status = asc ''failed'', stage = asc ''literature_agent'', message = mL,
            results = [], summary = None\<rparr>, [LiteratureStage])) \<and>
     ((sL = PStr (asc ''success'') \<or> sL = PStr (asc ''warning'')) \<and> data_agent L = Inr D \<and>
      subscript D ''status'' = Inr sD \<and> subscript D ''message'' = Inr mD \<longrightarrow>
        (ReportStage \<in> set (snd (run itext literature_agent data_agent report_agent kw)) \<longleftrightarrow>
           sD = PStr (asc ''success'')) \<and>
        (sD \<noteq> PStr (asc ''success'') \<longrightarrow>
           run itext literature_agent data_agent report_agent kw =
             (\<lparr>chain_status = asc ''failed'', stage = asc ''data_agent'', message = mD,
               results = [(asc ''literature_result'', L), (asc ''data_result'', D)],
               summary = None\<rparr>,
              [LiteratureStage, DataStage])) \<and>
        (sD = PStr (asc ''success'') \<and> report_agent kw L D = Inr R \<and>
         final_result kw L D R = Inr r \<longrightarrow>
           run itext literature_agent data_agent report_agent kw =
             (r, [LiteratureStage, DataStage, ReportStage]) \<and>
           results r = [(asc ''literature_result'', L), (asc ''data_result'', D),
                        (asc ''report_result'', R)] \<and>
           (subscript R ''status'' = Inr (PStr (asc ''success'')) \<longrightarrow>
              chain_status r = asc ''success'' \<and> stage r = asc ''completed'') \<and>
           (subscript R ''status'' \<noteq> Inr (PStr (asc ''success'')) \<longrightarrow>
              chain_status r = asc ''failed'' \<and> stage r = asc ''report_agent'')) \<and>
        (sD = PStr (asc ''success'') \<and>
         (report_agent kw L D = Inl e \<or>
          report_agent kw L D = Inr R \<and> final_result kw L D R = Inl e) \<longrightarrow>
           run itext literature_agent data_agent report_agent kw =
             (\<lparr>chain_status = asc ''failed'', stage = asc ''full_chain'',
               message = PStr ([65, 103, 101, 110, 116, 38142, 25191, 34892, 22833, 36133,
                                65306] @ str_exn itext e),
               results = [], summary = None\<rparr>,
              [LiteratureStage, DataStage, ReportStage])))"
proof (intro conjI impI)
  let ?run = "run itext literature_agent data_agent report_agent kw"
  show "DataStage \<in> set (snd ?run) \<longleftrightarrow>
        sL = PStr (asc ''success'') \<or> sL = PStr (asc ''warning'')"
  proof (cases "sL = PStr (asc ''success'') \<or> sL = PStr (asc ''warning'')")
    case True
    have "\<exists>tr. snd ?run = LiteratureStage # DataStage # tr"
      using assms(1,2) True by (rule run_literature_proceeds)
    then show ?thesis using True by auto
  next
    case False
    have "?run = (failed_at ''literature_agent'' mL [], [LiteratureStage])"
      using assms False by (rule run_literature_halts)
    then show ?thesis using False by simp
  qed
next
  assume "\<not> (sL = PStr (asc ''success'') \<or> sL = PStr (asc ''warning''))"
  with assms have "run itext literature_agent data_agent report_agent kw =
          (failed_at ''literature_agent'' mL [], [LiteratureStage])"
    by (rule run_literature_halts)
  then show "run itext literature_agent data_agent report_agent kw =
          (\<lparr>chain_status = asc ''failed'', stage = asc ''literature_agent'', message = mL,
            results = [], summary = None\<rparr>, [LiteratureStage])"
    by (simp add: failed_at_def)
next
  assume h: "(sL = PStr (asc ''success'') \<or> sL = PStr (asc ''warning'')) \<and>
      data_agent L = Inr D \<and> subscript D ''status'' = Inr sD \<and> subscript D ''message'' = Inr mD"
  from h have ok: "sL = PStr (asc ''success'') \<or> sL = PStr (asc ''warning'')"
    and d: "data_agent L = Inr D" and sd: "subscript D ''status'' = Inr sD"
    and md: "subscript D ''message'' = Inr mD" by blast+
  show "ReportStage \<in> set (snd (run itext literature_agent data_agent report_agent kw)) \<longleftrightarrow>
           sD = PStr (asc ''success'')"
  proof (cases "sD = PStr (asc ''success'')")
    case True
    show ?thesis
      using assms h True
      by (cases "report_agent kw L D")
         (auto simp: run_def after_literature_def after_data_def py_eq_PStr bind_exn_def)
  next
    case False
    have "run itext literature_agent data_agent report_agent kw =
           (failed_at ''data_agent'' mD
              [(asc ''literature_result'', L), (asc ''data_result'', D)],
            [LiteratureStage, DataStage])"
      using assms(1,2) ok d sd md False by (rule run_data_halts)
    then show ?thesis using False by simp
  qed
next
  assume h: "(sL = PStr (asc ''success'') \<or> sL = PStr (asc ''warning'')) \<and>
      data_agent L = Inr D \<and> subscript D ''status'' = Inr sD \<and> subscript D ''message'' = Inr mD"
    and ne: "sD \<noteq> PStr (asc ''success'')"
  from h have ok: "sL = PStr (asc ''success'') \<or> sL = PStr (asc ''warning'')"
    and d: "data_agent L = Inr D" and sd: "subscript D ''status'' = Inr sD"
    and md: "subscript D ''message'' = Inr mD" by blast+
  have "run itext literature_agent data_agent report_agent kw =
             (failed_at ''data_agent'' mD
                [(asc ''literature_result'', L), (asc ''data_result'', D)],
              [LiteratureStage, DataStage])"
    using assms(1,2) ok d sd md ne by (rule run_data_halts)
  then show "run itext literature_agent data_agent report_agent kw =
             (\<lparr>chain_status = asc ''failed'', stage = asc ''data_agent'', message = mD,
               results = [(asc ''literature_result'', L), (asc ''data_result'', D)],
               summary = None\<rparr>,
              [LiteratureStage, DataStage])"
    by (simp add: failed_at_def)
next
  assume h: "(sL = PStr (asc ''success'') \<or> sL = PStr (asc ''warning'')) \<and>
      data_agent L = Inr D \<and> subscript D ''status'' = Inr sD \<and> subscript D ''message'' = Inr mD"
    and s: "sD = PStr (asc ''success'') \<and> report_agent kw L D = Inr R \<and>
         final_result kw L D R = Inr r"
  from h have ok: "sL = PStr (asc ''success'') \<or> sL = PStr (asc ''warning'')"
    and d: "data_agent L = Inr D" and sd: "subscript D ''status'' = Inr sD"
    and md: "subscript D ''message'' = Inr mD" by blast+
  from s have sd': "subscript D ''status'' = Inr (PStr (asc ''success''))"
    and rr: "report_agent kw L D = Inr R" using sd by simp_all
  have "run itext literature_agent data_agent report_agent kw =
           (case final_result kw L D R of Inl e \<Rightarrow> full_chain_failed itext e | Inr r \<Rightarrow> r,
            [LiteratureStage, DataStage, ReportStage])"
    using assms(1,2) ok d sd' rr by (rule run_report_invoked)
  then show "run itext literature_agent data_agent report_agent kw =
             (r, [LiteratureStage, DataStage, ReportStage])"
    using s by simp
next
  assume s: "sD = PStr (asc ''success'') \<and> report_agent kw L D = Inr R \<and>
         final_result kw L D R = Inr r"
  then show "results r = [(asc ''literature_result'', L), (asc ''data_result'', D),
                        (asc ''report_result'', R)]"
    using final_result_fields[of kw L D R r] by simp
next
  assume s: "sD = PStr (asc ''success'') \<and> report_agent kw L D = Inr R \<and>
         final_result kw L D R = Inr r"
    and "subscript R ''status'' = Inr (PStr (asc ''success''))"
  then show "chain_status r = asc ''success''" "stage r = asc ''completed''"
    using final_result_fields[of kw L D R r] by simp_all
next
  assume s: "sD = PStr (asc ''success'') \<and> report_agent kw L D = Inr R \<and>
         final_result kw L D R = Inr r"
    and "subscript R ''status'' \<noteq> Inr (PStr (asc ''success''))"
  then show "chain_status r = asc ''failed''" "stage r = asc ''report_agent''"
    using final_result_fields[of kw L D R r] by simp_all
next
  assume h: "(sL = PStr (asc ''success'') \<or> sL = PStr (asc ''warning'')) \<and>
      data_agent L = Inr D \<and> subscript D ''status'' = Inr sD \<and> subscript D ''message'' = Inr mD"
    and s: "sD = PStr (asc ''success'') \<and>
         (report_agent kw L D = Inl e \<or>
          report_agent kw L D = Inr R \<and> final_result kw L D R = Inl e)"
  from h have ok: "sL = PStr (asc ''success'') \<or> sL = PStr (asc ''warning'')"
    and d: "data_agent L = Inr D" and sd: "subscript D ''status'' = Inr sD"
    and md: "subscript D ''message'' = Inr mD" by blast+
  from s have sd': "subscript D ''status'' = Inr (PStr (asc ''success''))"
    using sd by simp
  from s consider "report_agent kw L D = Inl e"
    | "report_agent kw L D = Inr R" "final_result kw L D R = Inl e" by blast
  then have "run itext literature_agent data_agent report_agent kw =
           (full_chain_failed itext e, [LiteratureStage, DataStage, ReportStage])"
  proof cases
    case 1
    with assms(1,2) ok d sd' show ?thesis by (rule run_report_raises)
  next
    case 2
    have "run itext literature_agent data_agent report_agent kw =
           (case final_result kw L D R of Inl e \<Rightarrow> full_chain_failed itext e | Inr r \<Rightarrow> r,
            [LiteratureStage, DataStage, ReportStage])"
      using assms(1,2) ok d sd' 2(1) by (rule run_report_invoked)
    then show ?thesis using 2(2) by simp
  qed
  then show "run itext literature_agent data_agent report_agent kw =
             (\<lparr>chain_status = asc ''failed'', stage = asc ''full_chain'',
               message = PStr ([65, 103, 101, 110, 116, 38142, 25191, 34892, 22833, 36133,
                                65306] @ str_exn itext e),
               results = [], summary = None\<rparr>,
              [LiteratureStage, DataStage, ReportStage])"
    by (simp add: full_chain_failed_def failed_at_def)
qed

theorem orchestrator_transitions_witness:
  "run itext_sample (stage_returns (literature_error (asc ''boom''))) (stage_returns data_ok)
     (report_returns report_ok) (asc ''diabetes'') =
     (\<lparr>chain_status = asc ''failed'', stage = asc ''literature_agent'',
       message = PStr (asc ''boom''), results = [], summary = None\<rparr>, [LiteratureStage]) \<and>
   snd (run itext_sample (stage_returns lit_ok) (stage_returns data_ok)
          (report_returns report_ok) (asc ''diabetes'')) =
     [LiteratureStage, DataStage, ReportStage] \<and>
   stage (fst (run itext_sample (stage_returns lit_ok) (stage_returns data_ok)
                 (report_returns report_ok) (asc ''diabetes''))) = asc ''completed'' \<and>
   run itext_sample (stage_returns lit_ok)
     (stage_returns (PDict [(asc ''status'', PStr (asc ''success'')),
                            (asc ''message'', PStr (asc ''done''))]))
     (report_returns report_ok) (asc ''diabetes'') =
     (\<lparr>chain_status = asc ''failed'', stage = asc ''full_chain'',
       message = PStr [65, 103, 101, 110, 116, 38142, 25191, 34892, 22833, 36133, 65306],
       results = [], summary = None\<rparr>,
      [LiteratureStage, DataStage, ReportStage])"
proof -
  let ?r = "\<lparr>chain_status = asc ''success'', stage = asc ''completed'',
          message = PStr [23436, 25972, 65, 103, 101, 110, 116, 38142, 25191, 34892, 23436,
                          25104, 65292, 25253, 21578, 24050, 29983, 25104],
          results = [(asc ''literature_result'', lit_ok), (asc ''data_result'', data_ok),
                     (asc ''report_result'', report_ok)],
          summary = Some \<lparr>s_keywords = asc ''diabetes'', s_total_papers = PInt 4,
                           main_research_method = PStr cat_rct,
                           s_report_path = PStr (asc ''./reports/r.md''),
                           s_plot_paths = PList []\<rparr>\<rparr>"
  let ?bare = "PDict [(asc ''status'', PStr (asc ''success'')),
                      (asc ''message'', PStr (asc ''done''))]"
  have e1: "stage_returns (literature_error (asc ''boom'')) (asc ''diabetes'')
            = Inr (literature_error (asc ''boom''))"
    by (simp add: stage_returns_def)
  have e2: "\<not> (PStr (asc ''error'') = PStr (asc ''success'') \<or>
                PStr (asc ''error'') = PStr (asc ''warning''))"
    by (simp add: asc_def)
  have first: "run itext_sample (stage_returns (literature_error (asc ''boom'')))
       (stage_returns data_ok) (report_returns report_ok) (asc ''diabetes'') =
       (\<lparr>chain_status = asc ''failed'', stage = asc ''literature_agent'',
         message = PStr (asc ''boom''), results = [], summary = None\<rparr>, [LiteratureStage])"
    using e2 orchestrator_transitions
      [where literature_agent = "stage_returns (literature_error (asc ''boom''))"
         and kw = "asc ''diabetes''" and L = "literature_error (asc ''boom'')"
         and sL = "PStr (asc ''error'')" and mL = "PStr (asc ''boom'')"
         and itext = itext_sample and data_agent = "stage_returns data_ok"
         and report_agent = "report_returns report_ok",
       OF e1 sample_subscripts(8) sample_subscripts(9)]
    by blast
  have s1: "stage_returns lit_ok (asc ''diabetes'') = Inr lit_ok"
    by (simp add: stage_returns_def)
  have s2: "stage_returns data_ok lit_ok = Inr data_ok"
    by (simp add: stage_returns_def)
  have s3: "report_returns report_ok (asc ''diabetes'') lit_ok data_ok = Inr report_ok"
    by (simp add: report_returns_def)
  have second: "run itext_sample (stage_returns lit_ok) (stage_returns data_ok)
          (report_returns report_ok) (asc ''diabetes'') =
          (?r, [LiteratureStage, DataStage, ReportStage])"
    using s2 s3 final_result_sample sample_subscripts(5) sample_subscripts(6)
      orchestrator_transitions
      [where literature_agent = "stage_returns lit_ok" and kw = "asc ''diabetes''"
         and L = lit_ok and sL = "PStr (asc ''success'')" and mL = "PStr (asc ''ok'')"
         and itext = itext_sample and data_agent = "stage_returns data_ok"
         and report_agent = "report_returns report_ok" and D = data_ok
         and sD = "PStr (asc ''success'')" and mD = "PStr (asc ''done'')"
         and R = report_ok and r = ?r,
       OF s1 sample_subscripts(1) sample_subscripts(2)]
    by blast
  have b2: "stage_returns ?bare lit_ok = Inr ?bare"
    by (simp add: stage_returns_def)
  have b3: "report_returns report_ok (asc ''diabetes'') lit_ok ?bare = Inr report_ok"
    by (simp add: report_returns_def)
  have b4: "subscript ?bare ''status'' = Inr (PStr (asc ''success''))"
    "subscript ?bare ''message'' = Inr (PStr (asc ''done''))"
    by (simp_all add: subscript_def asc_def)
  have b5: "final_result (asc ''diabetes'') lit_ok ?bare report_ok
            = Inl (KeyError (PStr (asc ''statistic'')))"
    by (simp add: final_result_def bind_exn_def subscript_def report_ok_def asc_def)
  have b6: "str_exn itext_sample (KeyError (PStr (asc ''statistic''))) = []"
    by (simp add: str_exn_def itext_sample_def)
  have third: "run itext_sample (stage_returns lit_ok) (stage_returns ?bare)
     (report_returns report_ok) (asc ''diabetes'') =
     (\<lparr>chain_status = asc ''failed'', stage = asc ''full_chain'',
       message = PStr ([65, 103, 101, 110, 116, 38142, 25191, 34892, 22833, 36133, 65306] @
                       str_exn itext_sample (KeyError (PStr (asc ''statistic'')))),
       results = [], summary = None\<rparr>,
      [LiteratureStage, DataStage, ReportStage])"
    using b2 b3 b4 b5
      orchestrator_transitions
      [where literature_agent = "stage_returns lit_ok" and kw = "asc ''diabetes''"
         and L = lit_ok and sL = "PStr (asc ''success'')" and mL = "PStr (asc ''ok'')"
         and itext = itext_sample and data_agent = "stage_returns ?bare"
         and report_agent = "report_returns report_ok" and D = ?bare
         and sD = "PStr (asc ''success'')" and mD = "PStr (asc ''done'')"
         and R = report_ok and e = "KeyError (PStr (asc ''statistic''))",
       OF s1 sample_subscripts(1) sample_subscripts(2)]
    by blast
  show ?thesis
    unfolding first second third b6 by simp
qed

theorem data_warning_halts_counterexample:
  "subscript data_warning ''status'' = Inr (PStr (asc ''warning'')) \<and>
   run itext_sample (stage_returns lit_ok) (stage_returns data_warning)
     (report_returns report_ok) (asc ''diabetes'') =
     (\<lparr>chain_status = asc ''failed'', stage = asc ''data_agent'',
       message = PStr (asc ''partial''),
       results = [(asc ''literature_result'', lit_ok), (asc ''data_result'', data_warning)],
       summary = None\<rparr>,
      [LiteratureStage, DataStage])"
proof -
  have "PStr (asc ''warning'') \<noteq> PStr (asc ''success'')" by (simp add: asc_def)
  then show ?thesis
    by (simp add: run_def after_literature_def after_data_def stage_returns_def
        sample_subscripts py_eq_PStr bind_exn_def failed_at_def)
qed

lemma failed_ne_success: "asc ''failed'' \<noteq> asc ''success''"
  by (simp add: asc_def)

lemma run_success_final:
  assumes "literature_agent kw = Inr L" and "data_agent L = Inr D"
    and "run itext literature_agent data_agent report_agent kw = (r, tr)"
    and "chain_status r = asc ''success''"
  shows "\<exists>R. final_result kw L D R = Inr r"
proof -
  have f: "chain_status (full_chain_failed itext e) \<noteq> asc ''success''" for e
    by (simp add: full_chain_failed_def failed_at_def failed_ne_success)
  have g: "chain_status (failed_at n m rs) \<noteq> asc ''success''" for n m rs
    by (simp add: failed_at_def failed_ne_success)
  show ?thesis
  proof (cases "subscript L ''status''")
    case (Inl e)
    then have "r = full_chain_failed itext e"
      using assms(1,3) by (simp add: run_def after_literature_def)
    with f assms(4) show ?thesis by blast
  next
    case sL: (Inr sL)
    show ?thesis
    proof (cases "py_eq sL (PStr (asc ''success'')) \<or> py_eq sL (PStr (asc ''warning''))")
      case False
      then have "r = full_chain_failed itext e \<or> r = failed_at ''literature_agent'' m []"
        if "subscript L ''message'' = Inl e \<or> subscript L ''message'' = Inr m" for e m
        using that assms(1,3) sL by (auto simp: run_def after_literature_def bind_exn_def)
      then show ?thesis using f g assms(4)
        by (metis sum.exhaust_sel sum.collapse(1) sum.collapse(2))
    next
      case ok: True
      show ?thesis
      proof (cases "subscript D ''status''")
        case (Inl e)
        then have "r = full_chain_failed itext e"
          using assms(1,2,3) sL ok by (auto simp: run_def after_literature_def after_data_def)
        with f assms(4) show ?thesis by blast
      next
        case sD: (Inr sD)
        show ?thesis
        proof (cases "py_eq sD (PStr (asc ''success''))")
          case False
          then have "r = full_chain_failed itext e \<or>
                     r = failed_at ''data_agent'' m
                           [(asc ''literature_result'', L), (asc ''data_result'', D)]"
            if "subscript D ''message'' = Inl e \<or> subscript D ''message'' = Inr m" for e m
            using that assms(1,2,3) sL ok sD
            by (auto simp: run_def after_literature_def after_data_def bind_exn_def)
          then show ?thesis using f g assms(4)
            by (metis sum.exhaust_sel sum.collapse(1) sum.collapse(2))
        next
          case True
          then have r: "r = (case bind_exn (report_agent kw L D) (final_result kw L D) of
                           Inl e \<Rightarrow> full_chain_failed itext e | Inr r \<Rightarrow> r)"
            using assms(1,2,3) sL ok sD
            by (auto simp: run_def after_literature_def after_data_def)
          show ?thesis
          proof (cases "bind_exn (report_agent kw L D) (final_result kw L D)")
            case (Inl e)
            with r f assms(4) show ?thesis by simp
          next
            case (Inr r')
            with r have "r' = r" by simp
            with Inr show ?thesis
              by (auto simp: bind_exn_def split: sum.splits)
          qed
        qed
      qed
    qed
  qed
qed

lemma final_result_summary:
  assumes "final_result kw L D R = Inr r"
  shows "\<exists>s m. summary r = Some s \<and> dominant_method D = Inr m \<and> main_research_method s = m"
  using assms by (auto simp: final_result_def bind_exn_def split: sum.splits)

lemma py_gt_ints: "py_gt (PInt a) (PInt b) = Inr (a > b)"
  by simp

lemma max_loop_first_maximum:
  assumes "\<forall>x \<in> set rest. key (PStr (fst x)) = Inr (PInt (snd x))"
  shows "\<exists>k c pre post.
           max_loop key (PStr k0) (PInt c0) (map (\<lambda>x. PStr (fst x)) rest) = Inr (PStr k) \<and>
           (k0, c0) # rest = pre @ (k, c) # post \<and>
           (\<forall>x \<in> set pre. snd x < c) \<and> (\<forall>x \<in> set post. snd x \<le> c)"
  using assms
proof (induction rest arbitrary: k0 c0)
  case Nil
  have "max_loop key (PStr k0) (PInt c0) (map (\<lambda>x. PStr (fst x)) []) = Inr (PStr k0) \<and>
        (k0, c0) # [] = [] @ (k0, c0) # [] \<and>
        (\<forall>x \<in> set []. snd x < c0) \<and> (\<forall>x \<in> set []. snd x \<le> c0)"
    by simp
  then show ?case
    by (rule_tac x = k0 in exI, rule_tac x = c0 in exI, rule_tac x = "[]" in exI,
        rule_tac x = "[]" in exI)
next
  case (Cons x rest)
  obtain k1 c1 where x: "x = (k1, c1)" by (cases x)
  have key1: "key (PStr k1) = Inr (PInt c1)" using Cons.prems x by simp
  have rest: "\<forall>x \<in> set rest. key (PStr (fst x)) = Inr (PInt (snd x))"
    using Cons.prems by simp
  show ?case
  proof (cases "c1 > c0")
    case True
    from Cons.IH[OF rest, of k1 c1] obtain k c pre post where
      m: "max_loop key (PStr k1) (PInt c1) (map (\<lambda>x. PStr (fst x)) rest) = Inr (PStr k)"
      and d: "(k1, c1) # rest = pre @ (k, c) # post"
      and lo: "\<forall>x \<in> set pre. snd x < c" and hi: "\<forall>x \<in> set post. snd x \<le> c"
      by (elim exE conjE)
    have "c1 \<le> c"
    proof (cases pre)
      case Nil
      with d show ?thesis by simp
    next
      case (Cons p pre')
      with d have "p = (k1, c1)" by simp
      with lo Cons show ?thesis by simp
    qed
    then have c0: "c0 < c" using True by simp
    have a: "max_loop key (PStr k0) (PInt c0) (map (\<lambda>x. PStr (fst x)) (x # rest))
             = Inr (PStr k)"
      using m key1 True by (simp add: x py_gt_ints del: py_gt.simps)
    have b: "(k0, c0) # x # rest = ((k0, c0) # pre) @ (k, c) # post"
      using d by (simp add: x)
    have c: "\<forall>x \<in> set ((k0, c0) # pre). snd x < c"
      using lo c0 by simp
    from a b c hi have "max_loop key (PStr k0) (PInt c0) (map (\<lambda>x. PStr (fst x)) (x # rest))
             = Inr (PStr k) \<and> (k0, c0) # x # rest = ((k0, c0) # pre) @ (k, c) # post \<and>
             (\<forall>x \<in> set ((k0, c0) # pre). snd x < c) \<and> (\<forall>x \<in> set post. snd x \<le> c)"
      by (intro conjI)
    then show ?thesis
      by (rule_tac x = k in exI, rule_tac x = c in exI, rule_tac x = "(k0, c0) # pre" in exI,
          rule_tac x = post in exI)
  next
    case False
    from Cons.IH[OF rest, of k0 c0] obtain k c pre post where
      m: "max_loop key (PStr k0) (PInt c0) (map (\<lambda>x. PStr (fst x)) rest) = Inr (PStr k)"
      and d: "(k0, c0) # rest = pre @ (k, c) # post"
      and lo: "\<forall>x \<in> set pre. snd x < c" and hi: "\<forall>x \<in> set post. snd x \<le> c"
      by (elim exE conjE)
    have ml: "max_loop key (PStr k0) (PInt c0) (map (\<lambda>x. PStr (fst x)) (x # rest))
              = Inr (PStr k)"
      using m key1 False by (simp add: x py_gt_ints del: py_gt.simps)
    show ?thesis
    proof (cases pre)
      case Nil
      with d have e: "k = k0" "c = c0" "post = rest" by simp_all
      have b: "(k0, c0) # x # rest = [] @ (k, c) # (x # rest)" using e by simp
      have h: "\<forall>y \<in> set (x # rest). snd y \<le> c"
        using hi e False by (simp add: x)
      have l: "\<forall>y \<in> set []. snd y < c" by simp
      from ml b l h have "max_loop key (PStr k0) (PInt c0) (map (\<lambda>x. PStr (fst x)) (x # rest))
             = Inr (PStr k) \<and> (k0, c0) # x # rest = [] @ (k, c) # (x # rest) \<and>
             (\<forall>y \<in> set []. snd y < c) \<and> (\<forall>y \<in> set (x # rest). snd y \<le> c)"
        by (intro conjI)
      then show ?thesis
        by (rule_tac x = k in exI, rule_tac x = c in exI, rule_tac x = "[]" in exI,
            rule_tac x = "x # rest" in exI)
    next
      case (Cons p pre')
      with d have p: "p = (k0, c0)" and r: "rest = pre' @ (k, c) # post" by simp_all
      have c0: "c0 < c" using lo Cons p by simp
      have b: "(k0, c0) # x # rest = ((k0, c0) # x # pre') @ (k, c) # post"
        using r by simp
      have l: "\<forall>y \<in> set ((k0, c0) # x # pre'). snd y < c"
        using lo Cons c0 False by (simp add: x)
      from ml b l hi have "max_loop key (PStr k0) (PInt c0) (map (\<lambda>x. PStr (fst x)) (x # rest))
             = Inr (PStr k) \<and> (k0, c0) # x # rest = ((k0, c0) # x # pre') @ (k, c) # post \<and>
             (\<forall>y \<in> set ((k0, c0) # x # pre'). snd y < c) \<and> (\<forall>y \<in> set post. snd y \<le> c)"
        by (intro conjI)
      then show ?thesis
        by (rule_tac x = k in exI, rule_tac x = c in exI,
            rule_tac x = "(k0, c0) # x # pre'" in exI, rule_tac x = post in exI)
    qed
  qed
qed

lemma dominant_spec_first_maximum:
  assumes "d = pre @ (k, c) # post"
    and "\<forall>(k', c') \<in> set pre. c' < c" and "\<forall>(k', c') \<in> set post. c' \<le> c"
  shows "dominant_spec d = k"
proof -
  let ?P = "\<lambda>(k, c). \<forall>(k', c') \<in> set d. c' \<le> c"
  have "filter ?P pre = []"
  proof -
    have "\<not> ?P x" if "x \<in> set pre" for x
    proof -
      obtain k1 c1 where x: "x = (k1, c1)" by (cases x)
      have "c1 < c" using assms(2) that x by auto
      moreover have "(k, c) \<in> set d" using assms(1) by simp
      ultimately show ?thesis using x by force
    qed
    then show ?thesis by (simp add: filter_empty_conv)
  qed
  moreover have "?P (k, c)"
    using assms by (auto simp: less_imp_le)
  ultimately have "filter ?P d = (k, c) # filter ?P post"
    using assms(1) by simp
  then show ?thesis by (simp add: dominant_spec_def)
qed

lemma dominant_spec_empty: "dominant_spec [] = unknown"
  by (simp add: dominant_spec_def)

lemma map_of_counts:
  "distinct (map fst d) \<Longrightarrow> (k, c) \<in> set d \<Longrightarrow>
   map_of (map (\<lambda>(k, c). (k, PInt c)) d) k = Some (PInt c)"
  by (induction d) (auto simp: rev_image_eqI)

lemma dominant_method_counts:
  assumes st: "subscript D ''statistic'' = Inr st"
    and di: "dict_get st ''methods_classified_distribution'' (PDict []) = Inr (counts_dict d)"
    and dist: "distinct (map fst d)"
  shows "dominant_method D = Inr (PStr (dominant_spec d))"
proof -
  have dm: "dominant_method D = py_max (counts_dict d) (method_count D) (PStr unknown)"
    using st di by (simp add: dominant_method_def bind_exn_def)
  show ?thesis
  proof (cases d)
    case Nil
    then show ?thesis
      by (simp add: dm py_max_def counts_dict_def dominant_spec_empty)
  next
    case (Cons x rest)
    obtain k0 c0 where x: "x = (k0, c0)" by (cases x)
    obtain kvs where kvs: "st = PDict kvs"
      using di by (cases st) (simp_all add: dict_get_def)
    have "map_of kvs (asc ''methods_classified_distribution'') = Some (counts_dict d)"
      using di Cons kvs
      by (cases "map_of kvs (asc ''methods_classified_distribution'')")
         (simp_all add: dict_get_def counts_dict_def)
    then have sub: "subscript st ''methods_classified_distribution'' = Inr (counts_dict d)"
      by (simp add: subscript_def kvs)
    have key: "method_count D (PStr (fst y)) = Inr (PInt (snd y))" if "y \<in> set d" for y
    proof -
      obtain k c where y: "y = (k, c)" by (cases y)
      have "map_of (map (\<lambda>(k, c). (k, PInt c)) d) k = Some (PInt c)"
        using dist that y by (intro map_of_counts) simp_all
      then show ?thesis
        using st sub by (simp add: method_count_def bind_exn_def counts_dict_def y)
    qed
    have it: "py_iter (counts_dict d) = Inr (PStr k0 # map (\<lambda>x. PStr (fst x)) rest)"
      by (simp add: counts_dict_def Cons x split_beta)
    have k0: "method_count D (PStr k0) = Inr (PInt c0)"
      using key[of "(k0, c0)"] Cons x by simp
    have pm: "py_max (counts_dict d) (method_count D) (PStr unknown) =
          max_loop (method_count D) (PStr k0) (PInt c0) (map (\<lambda>x. PStr (fst x)) rest)"
      by (simp add: py_max_def it k0)
    have "\<forall>y \<in> set rest. method_count D (PStr (fst y)) = Inr (PInt (snd y))"
      using key Cons by simp
    from max_loop_first_maximum[OF this, of k0 c0] obtain k c pre post where
      m: "max_loop (method_count D) (PStr k0) (PInt c0) (map (\<lambda>x. PStr (fst x)) rest)
          = Inr (PStr k)"
      and de: "(k0, c0) # rest = pre @ (k, c) # post"
      and lo: "\<forall>x \<in> set pre. snd x < c" and hi: "\<forall>x \<in> set post. snd x \<le> c"
      by (elim exE conjE)
    have "dominant_spec d = k"
    proof (rule dominant_spec_first_maximum)
      show "d = pre @ (k, c) # post" using de Cons x by simp
      show "\<forall>(k', c') \<in> set pre. c' < c" using lo by (simp add: split_beta)
      show "\<forall>(k', c') \<in> set post. c' \<le> c" using hi by (simp add: split_beta)
    qed
    then show ?thesis by (simp add: dm pm m)
  qed
qed

text \<open>
  Claim C7. With a distribution of counts (distinct categories, in iteration order) in the
  statistic of the statistical envelope, the dominant method of the summary is the first
  key of greatest count: \<open>unknown\<close> for the empty distribution, and the key of an entry
  that every earlier count is below and no later count exceeds; \<open>{RCT: 2, cohort: 2}\<close>
  gives RCT. It is what the summary of a successful run holds.
\<close>

theorem dominant_method_is_first_maximum:
  assumes "subscript D ''statistic'' = Inr st"
    and "dict_get st ''methods_classified_distribution'' (PDict []) = Inr (counts_dict d)"
    and "distinct (map fst d)"
  shows
    "dominant_method D = Inr (PStr (dominant_spec d)) \<and>
     (d = [] \<longrightarrow> dominant_spec d = unknown) \<and>
     (\<forall>pre k c post.
        d = pre @ (k, c) # post \<and> (\<forall>(k', c') \<in> set pre. c' < c) \<and>
        (\<forall>(k', c') \<in> set post. c' \<le> c) \<longrightarrow> dominant_spec d = k) \<and>
     dominant_spec [(cat_rct, 2), (cat_cohort, 2)] = cat_rct \<and>
     (literature_agent kw = Inr L \<and> data_agent L = Inr D \<and>
      run itext literature_agent data_agent report_agent kw = (r, tr) \<and>
      chain_status r = asc ''success'' \<longrightarrow>
        (\<exists>s. summary r = Some s \<and> main_research_method s = PStr (dominant_spec d)))"
proof (intro conjI impI allI)
  show dm: "dominant_method D = Inr (PStr (dominant_spec d))"
    using assms by (rule dominant_method_counts)
  show "dominant_spec d = unknown" if "d = []"
    using that by (simp add: dominant_spec_empty)
  show "dominant_spec d = k"
    if "d = pre @ (k, c) # post \<and> (\<forall>(k', c') \<in> set pre. c' < c) \<and>
        (\<forall>(k', c') \<in> set post. c' \<le> c)" for pre k c post
    using that by (intro dominant_spec_first_maximum[of d pre k c post]) simp_all
  show "dominant_spec [(cat_rct, 2), (cat_cohort, 2)] = cat_rct"
    by (simp add: dominant_spec_def)
  show "\<exists>s. summary r = Some s \<and> main_research_method s = PStr (dominant_spec d)"
    if h: "literature_agent kw = Inr L \<and> data_agent L = Inr D \<and>
      run itext literature_agent data_agent report_agent kw = (r, tr) \<and>
      chain_status r = asc ''success''"
  proof -
    from h have a: "literature_agent kw = Inr L" and b: "data_agent L = Inr D"
      and c: "run itext literature_agent data_agent report_agent kw = (r, tr)"
      and e: "chain_status r = asc ''success''" by simp_all
    have "\<exists>R. final_result kw L D R = Inr r"
      using a b c e by (rule run_success_final)
    then obtain R where "final_result kw L D R = Inr r" by (elim exE)
    then obtain s m where "summary r = Some s" "dominant_method D = Inr m"
      "main_research_method s = m"
      using final_result_summary by blast
    then show ?thesis using dm by simp
  qed
qed

theorem dominant_method_is_first_maximum_witness:
  "dominant_method data_ok = Inr (PStr cat_rct) \<and>
   (\<exists>s. summary (fst (run itext_sample (stage_returns lit_ok) (stage_returns data_ok)
                        (report_returns report_ok) (asc ''diabetes''))) = Some s \<and>
        main_research_method s = PStr cat_rct)"
proof -
  let ?st = "PDict [(asc ''total_papers'', PInt 4),
                    (asc ''methods_classified_distribution'',
                       counts_dict [(cat_rct, 2), (cat_cohort, 2)])]"
  let ?r = "fst (run itext_sample (stage_returns lit_ok) (stage_returns data_ok)
                   (report_returns report_ok) (asc ''diabetes''))"
  let ?tr = "snd (run itext_sample (stage_returns lit_ok) (stage_returns data_ok)
                   (report_returns report_ok) (asc ''diabetes''))"
  have h1: "subscript data_ok ''statistic'' = Inr ?st"
    by (simp add: subscript_def data_ok_def asc_def)
  have h2: "dict_get ?st ''methods_classified_distribution'' (PDict [])
            = Inr (counts_dict [(cat_rct, 2), (cat_cohort, 2)])"
    by (simp add: dict_get_def asc_def)
  have h3: "distinct (map fst [(cat_rct, 2::int), (cat_cohort, 2)])"
    by (simp add: cat_rct_def cat_cohort_def asc_def)
  have h4: "stage_returns lit_ok (asc ''diabetes'') = Inr lit_ok"
    "stage_returns data_ok lit_ok = Inr data_ok"
    by (simp_all add: stage_returns_def)
  have run: "run itext_sample (stage_returns lit_ok) (stage_returns data_ok)
               (report_returns report_ok) (asc ''diabetes'') = (?r, ?tr)"
    by simp
  have h5: "chain_status ?r = asc ''success''"
    by (simp add: run_def after_literature_def after_data_def stage_returns_def
        report_returns_def sample_subscripts py_eq_PStr bind_exn_def final_result_sample)
  have d: "dominant_spec [(cat_rct, 2), (cat_cohort, 2)] = cat_rct"
    by (simp add: dominant_spec_def)
  show ?thesis
    using h4 run h5 dominant_method_is_first_maximum [OF h1 h2 h3,
        where literature_agent = "stage_returns lit_ok" and kw = "asc ''diabetes''"
          and L = lit_ok and data_agent = "stage_returns data_ok" and itext = itext_sample
          and report_agent = "report_returns report_ok" and r = ?r and tr = ?tr]
    unfolding d by blast
qed

section \<open>The request endpoint\<close>

lemma dict_get_subscript:
  assumes "dict_get v k d = Inr x" and "x \<noteq> d"
  shows "subscript v k = Inr x"
proof -
  obtain kvs where v: "v = PDict kvs"
    using assms(1) by (cases v) (simp_all add: dict_get_def)
  show ?thesis
    using assms by (cases "map_of kvs (asc k)") (simp_all add: dict_get_def subscript_def v)
qed

lemma truthy_not_None: "truthy v \<Longrightarrow> v \<noteq> PNone"
  by (cases v) simp_all

lemma contains_nonempty: "contains k s \<Longrightarrow> k \<noteq> [] \<Longrightarrow> s \<noteq> []"
  by (cases s) simp_all

lemma subscript_missing:
  "map_of ag (asc k) = None \<Longrightarrow> subscript (PDict ag) k = Inl (KeyError (PStr (asc k)))"
  by (simp add: subscript_def)

text \<open>
  Claim C9. For a request whose other parameters are valid and whose \<open>agent_config\<close> has no
  \<open>max_papers\<close>: the checks pass (the bound is read with the default 10), the
  construction of the configuration raises KeyError on \<open>agent_config["max_papers"]\<close>, and
  the endpoint answers \<open>failed\<close> with stage \<open>server\<close> without invoking the chain.
\<close>

theorem missing_max_papers_is_server_failure:
  assumes "dict_get request_data ''keywords'' (PStr []) = Inr (PStr kw)" and "strip kw \<noteq> []"
    and "dict_get request_data ''llm_config'' (PDict []) = Inr llm"
    and "dict_get llm ''api_key'' PNone = Inr key" and "truthy key"
    and "dict_get llm ''base_url'' PNone = Inr url" and "truthy url"
    and "dict_get llm ''model_name'' PNone = Inr model" and "truthy model"
    and "dict_get request_data ''agent_config'' (PDict []) = Inr (PDict ag)"
    and "map_of ag (asc ''max_papers'') = None"
    and "dict_get request_data ''pubmed_config'' (PDict []) = Inr pm"
    and "dict_get pm ''email'' PNone = Inr (PStr em)" and "contains (asc ''@'') em"
  shows
    "check_params (strip kw) llm (PDict ag) pm = Inr None \<and>
     build_config llm (PDict ag) pm = Inl (KeyError (PStr (asc ''max_papers''))) \<and>
     research itext chain (Inr request_data) =
       (Failure (asc ''server'')
          ([26381, 21153, 22120, 22788, 29702, 22833, 36133, 65306] @
           itext (KeyError (PStr (asc ''max_papers'')))),
        False)"
proof -
  have em: "em \<noteq> []"
    using assms(14) by (rule contains_nonempty) (simp add: asc_def)
  have sub_email: "subscript pm ''email'' = Inr (PStr em)"
    using assms(13) by (rule dict_get_subscript) simp
  have sub_model: "subscript llm ''model_name'' = Inr model"
    using assms(8) truthy_not_None[OF assms(9)] by (rule dict_get_subscript)
  have sub_key: "subscript llm ''api_key'' = Inr key"
    using assms(4) truthy_not_None[OF assms(5)] by (rule dict_get_subscript)
  have sub_url: "subscript llm ''base_url'' = Inr url"
    using assms(6) truthy_not_None[OF assms(7)] by (rule dict_get_subscript)
  have papers: "dict_get (PDict ag) ''max_papers'' (PInt 10) = Inr (PInt 10)"
    using assms(11) by (simp add: dict_get_def)
  have check: "check_params (strip kw) llm (PDict ag) pm = Inr None"
    using assms(2,4,5,6,7,8,9,13,14) em sub_email papers
    by (simp add: check_params_def bind_exn_def is_int_def int_of_def)
  have build: "build_config llm (PDict ag) pm = Inl (KeyError (PStr (asc ''max_papers'')))"
    using sub_model sub_key sub_url subscript_missing[OF assms(11)]
    by (simp add: build_config_def bind_exn_def)
  have "kw \<noteq> []" using assms(2) by (auto simp: strip_def)
  then have "truthy request_data"
    using assms(1) by (cases request_data) (auto simp: dict_get_def)
  moreover have "checked_config request_data = Inl (KeyError (PStr (asc ''max_papers'')))"
    using assms(1,3,10,12) check build
    by (simp add: checked_config_def bind_exn_def py_strip_def)
  ultimately have "research itext chain (Inr request_data) =
       (Failure (asc ''server'')
          ([26381, 21153, 22120, 22788, 29702, 22833, 36133, 65306] @
           itext (KeyError (PStr (asc ''max_papers'')))),
        False)"
    by (simp add: research_def handle_request_def str_exn_def)
  with check build show ?thesis by simp
qed

theorem missing_max_papers_is_server_failure_witness:
  "research itext_sample (\<lambda>cfg kw. Inl (External [])) (Inr request_without_max_papers) =
     (Failure (asc ''server'') [26381, 21153, 22120, 22788, 29702, 22833, 36133, 65306], False)"
proof -
  let ?llm = "PDict [(asc ''api_key'', PStr (asc ''sk-1'')),
                     (asc ''base_url'', PStr (asc ''https://llm.example/v1'')),
                     (asc ''model_name'', PStr (asc ''qwen''))]"
  let ?pm = "PDict [(asc ''email'', PStr (asc ''a@b.org''))]"
  have h1: "dict_get request_without_max_papers ''keywords'' (PStr []) = Inr (PStr (asc ''diabetes''))"
    by (simp add: dict_get_def request_without_max_papers_def asc_def)
  have h2: "strip (asc ''diabetes'') \<noteq> []"
    by (simp add: strip_def is_space_def asc_def)
  have h3: "dict_get request_without_max_papers ''llm_config'' (PDict []) = Inr ?llm"
    by (simp add: dict_get_def request_without_max_papers_def asc_def)
  have h4: "dict_get ?llm ''api_key'' PNone = Inr (PStr (asc ''sk-1''))"
    by (simp add: dict_get_def asc_def)
  have h5: "truthy (PStr (asc ''sk-1''))" by (simp add: asc_def)
  have h6: "dict_get ?llm ''base_url'' PNone = Inr (PStr (asc ''https://llm.example/v1''))"
    by (simp add: dict_get_def asc_def)
  have h7: "truthy (PStr (asc ''https://llm.example/v1''))" by (simp add: asc_def)
  have h8: "dict_get ?llm ''model_name'' PNone = Inr (PStr (asc ''qwen''))"
    by (simp add: dict_get_def asc_def)
  have h9: "truthy (PStr (asc ''qwen''))" by (simp add: asc_def)
  have h10: "dict_get request_without_max_papers ''agent_config'' (PDict []) = Inr (PDict [])"
    by (simp add: dict_get_def request_without_max_papers_def asc_def)
  have h11: "map_of ([] :: (ustr \<times> pyval) list) (asc ''max_papers'') = None" by simp
  have h12: "dict_get request_without_max_papers ''pubmed_config'' (PDict []) = Inr ?pm"
    by (simp add: dict_get_def request_without_max_papers_def asc_def)
  have h13: "dict_get ?pm ''email'' PNone = Inr (PStr (asc ''a@b.org''))"
    by (simp add: dict_get_def asc_def)
  have h14: "contains (asc ''@'') (asc ''a@b.org'')" by (simp add: asc_def)
  have t: "itext_sample (KeyError (PStr (asc ''max_papers''))) = []"
    by (simp add: itext_sample_def)
  from missing_max_papers_is_server_failure
    [OF h1 h2 h3 h4 h5 h6 h7 h8 h9 h10 h11 h12 h13 h14,
      of itext_sample "\<lambda>cfg kw. Inl (External [])"]
  show ?thesis unfolding t by simp
qed

end
